theory Spec2Isabelle
  imports Main "HOL-Library.Sublist"
begin

section \<open>Python strings and paths used by \<open>crypt/file.py\<close>\<close>

text \<open>
  A Python \<open>str\<close> is modelled as a \<open>string\<close>, every \<open>char\<close> standing for the code
  point of the same number (so the model covers the code points below 256).
\<close>

definition isspace :: "char \<Rightarrow> bool" where
  \<comment> \<open>\<open>str.isspace\<close> on one character: the separators of \<open>str.split()\<close>.\<close>
  "isspace c = (c \<in> set [CHR 0x09, CHR 0x0A, CHR 0x0B, CHR 0x0C, CHR 0x0D,
                          CHR 0x1C, CHR 0x1D, CHR 0x1E, CHR 0x1F, CHR 0x20,
                          CHR 0x85, CHR 0xA0])"

fun split_acc :: "string \<Rightarrow> string \<Rightarrow> string list" where
  "split_acc cur [] = (if cur = [] then [] else [cur])"
| "split_acc cur (c # cs) =
     (if isspace c then (if cur = [] then split_acc [] cs else cur # split_acc [] cs)
      else split_acc (cur @ [c]) cs)"

definition split :: "string \<Rightarrow> string list" where
  \<comment> \<open>\<open>line.split()\<close>: the maximal runs of characters that are not whitespace.\<close>
  "split s = split_acc [] s"

definition linebreak :: "char \<Rightarrow> bool" where
  \<comment> \<open>The one-character line boundaries of \<open>str.splitlines\<close>, apart from \<open>\r\<close>.\<close>
  "linebreak c = (c \<in> set [CHR 0x0A, CHR 0x0B, CHR 0x0C, CHR 0x1C, CHR 0x1D, CHR 0x1E,
                            CHR 0x85])"

fun splitlines_acc :: "string \<Rightarrow> string \<Rightarrow> string list" where
  "splitlines_acc cur [] = (if cur = [] then [] else [cur])"
| "splitlines_acc cur (c # cs) =
     (if c = CHR 0x0D then
        (case cs of
           [] \<Rightarrow> [cur]
         | d # ds \<Rightarrow> if d = CHR 0x0A then cur # splitlines_acc [] ds
                    else cur # splitlines_acc [] (d # ds))
      else if linebreak c then cur # splitlines_acc [] cs
      else splitlines_acc (cur @ [c]) cs)"

definition splitlines :: "string \<Rightarrow> string list" where
  \<comment> \<open>\<open>stderr.splitlines()\<close>: the lines without their terminators; no last empty line.\<close>
  "splitlines s = splitlines_acc [] s"

definition startswith :: "string \<Rightarrow> string \<Rightarrow> bool" where
  "startswith s p = (take (length p) s = p)"

definition rstrip :: "string \<Rightarrow> string \<Rightarrow> string" where
  \<comment> \<open>\<open>s.rstrip(chars)\<close>: \<open>chars\<close> is a set of characters, removed from the right end.\<close>
  "rstrip s chars = rev (dropWhile (\<lambda>c. c \<in> set chars) (rev s))"

definition basename :: "string \<Rightarrow> string" where
  \<comment> \<open>\<open>os.path.basename\<close>: what follows the last slash.\<close>
  "basename p = rev (takeWhile (\<lambda>c. c \<noteq> CHR ''/'') (rev p))"

definition path_join :: "string \<Rightarrow> string \<Rightarrow> string" where
  \<comment> \<open>\<open>os.path.join\<close> of two components.\<close>
  "path_join a b =
     (if startswith b ''/'' then b
      else if a = [] \<or> last a = CHR ''/'' then a @ b
      else a @ ''/'' @ b)"

function str_nat :: "nat \<Rightarrow> string" where
  "str_nat n =
     (if n < 10 then [''0123456789'' ! n]
      else str_nat (n div 10) @ [''0123456789'' ! (n mod 10)])"
  by pat_completeness auto
termination
  by (relation "measure id") auto

declare str_nat.simps [simp del]

definition str_int :: "int \<Rightarrow> string" where
  \<comment> \<open>An integer as an f-string prints it.\<close>
  "str_int i = (if i < 0 then ''-'' @ str_nat (nat (- i)) else str_nat (nat i))"

section \<open>Exceptions and the outcome of an external command\<close>

datatype exn =
    RuntimeError string
  | IndexError
  | OSError string
  | EOFError
  | AttributeError string
  | SystemExit int

datatype run_outcome =
    Completed int string   \<comment> \<open>the command ran: return code and captured standard error\<close>
  | LaunchError string     \<comment> \<open>starting the command raised (an \<open>OSError\<close>)\<close>

section \<open>\<open>decrypt_to_tmp\<close>\<close>

definition index2 :: "string list \<Rightarrow> exn + string" where
  \<comment> \<open>\<open>parts[2]\<close>, raising \<open>IndexError\<close> out of range.\<close>
  "index2 parts = (if 2 < length parts then Inr (parts ! 2) else Inl IndexError)"

fun scan_keyid :: "string list \<Rightarrow> exn + string option" where
  \<comment> \<open>The loop of lines 58 to 65: \<open>Inr keyid\<close> is the value of \<open>keyid\<close> after the loop.\<close>
  "scan_keyid [] = Inr None"
| "scan_keyid (line # rest) =
     (if startswith line ''[GNUPG:] ENC_TO'' then
        (let parts = split line in
         if length parts \<ge> 2 then
           (case index2 parts of Inl e \<Rightarrow> Inl e | Inr k \<Rightarrow> Inr (Some k))
         else scan_keyid rest)
      else scan_keyid rest)"

definition mkdtemp :: "string \<Rightarrow> string" where
  \<comment> \<open>\<open>tempfile.mkdtemp(prefix="gpg-edit", dir="/dev/shm")\<close>; the random part is given.\<close>
  "mkdtemp random = path_join ''/dev/shm'' (''gpg-edit'' @ random)"

definition plaintext_name :: "string \<Rightarrow> string" where
  \<comment> \<open>Line 44: \<open>os.path.basename(enc_path).rstrip(".gpg")\<close>.\<close>
  "plaintext_name enc_path = rstrip (basename enc_path) ''.gpg''"

definition no_recipient :: exn where
  "no_recipient = RuntimeError ''Could not determine recipient key ID from GPG status output.''"

definition decrypt_failed :: "int \<Rightarrow> string \<Rightarrow> exn" where
  "decrypt_failed rc err =
     RuntimeError (''GPG decryption failed: '' @ str_int rc @ [CHR 0x0A] @ err)"

definition decrypt_to_tmp ::
  "string \<Rightarrow> run_outcome \<Rightarrow> string \<Rightarrow> exn + (string \<times> string \<times> string)" where
  \<comment> \<open>\<open>random\<close> is the directory name \<open>mkdtemp\<close> draws, \<open>gpg\<close> what the backend does.\<close>
  "decrypt_to_tmp random gpg enc_path =
     (let tmpdir = mkdtemp random;
          tmpfile = path_join tmpdir (plaintext_name enc_path)
      in case gpg of
           LaunchError msg \<Rightarrow> Inl (OSError msg)
         | Completed returncode stderr \<Rightarrow>
             if returncode \<noteq> 0 then Inl (decrypt_failed returncode stderr)
             else
               (case scan_keyid (splitlines stderr) of
                  Inl e \<Rightarrow> Inl e
                | Inr None \<Rightarrow> Inl no_recipient
                | Inr (Some keyid) \<Rightarrow>
                    if keyid = [] then Inl no_recipient
                    else Inr (tmpdir, tmpfile, keyid)))"

section \<open>The session's globals and the world around them\<close>

datatype signal = SIGINT | SIGTERM

datatype thread = Main_thread | Watcher_thread

datatype watcher_state = Created | Started | Stopped | Joined

datatype event =
    Print_stderr string               \<comment> \<open>a line printed to \<open>sys.stderr\<close>\<close>
  | Print_stdout string               \<comment> \<open>a line or prompt written to \<open>sys.stdout\<close>\<close>
  | Popen string                      \<comment> \<open>the user's command is started\<close>
  | Terminate                         \<comment> \<open>\<open>PROCESS.terminate()\<close>\<close>
  | Gpg_encrypt thread "string option" "string option" "string option"
      \<comment> \<open>the encryption backend is invoked, on this thread: plaintext, encrypted file,
          recipient\<close>
  | Acknowledged string               \<comment> \<open>\<open>input\<close> returned this line\<close>
  | Watcher_stop
  | Watcher_join
  | Rmtree string
  | Exit int                          \<comment> \<open>\<open>sys.exit\<close> is called\<close>

record world =
  TEMP_DIR :: "string option"
  PLAINTEXT_FILE :: "string option"
  ENCRYPTED_FILE :: "string option"
  RECIP_KEY :: "string option"
  WATCHER :: "watcher_state option"
  PROCESS :: "int option option"   \<comment> \<open>\<open>None\<close>, or the \<open>returncode\<close> of the \<open>Popen\<close> object\<close>
  locked :: bool                   \<comment> \<open>\<open>_ENCRYPT_LOCK\<close>\<close>
  handlers :: "signal list"        \<comment> \<open>the signals that \<open>cleanup_and_exit\<close> handles\<close>
  dirs :: "string list"            \<comment> \<open>the directories that exist\<close>
  files :: "string list"           \<comment> \<open>the files that exist\<close>
  log :: "event list"              \<comment> \<open>what the program has done, in order\<close>

datatype 'a result =
    Return 'a
  | Raise exn
  | Block     \<comment> \<open>the call never returns\<close>

definition emit :: "event \<Rightarrow> world \<Rightarrow> world" where
  "emit e w = w\<lparr>log := log w @ [e]\<rparr>"

definition is_Exception :: "exn \<Rightarrow> bool" where
  \<comment> \<open>What \<open>except Exception\<close> catches: \<open>SystemExit\<close> is not an \<open>Exception\<close>.\<close>
  "is_Exception e = (case e of SystemExit c \<Rightarrow> False | _ \<Rightarrow> True)"

fun str_exn :: "exn \<Rightarrow> string" where
  \<comment> \<open>\<open>str(e)\<close>, as the f-strings print an exception.\<close>
  "str_exn (RuntimeError m) = m"
| "str_exn IndexError = ''list index out of range''"
| "str_exn (OSError m) = m"
| "str_exn EOFError = ''EOF when reading a line''"
| "str_exn (AttributeError a) =
     [CHR 0x27] @ ''NoneType'' @ [CHR 0x27] @ '' object has no attribute '' @
     [CHR 0x27] @ a @ [CHR 0x27]"
| "str_exn (SystemExit c) = str_int c"

definition str_opt :: "string option \<Rightarrow> string" where
  \<comment> \<open>A global as an f-string prints it.\<close>
  "str_opt v = (case v of None \<Rightarrow> ''None'' | Some s \<Rightarrow> s)"

section \<open>\<open>encrypt_back\<close>\<close>

definition run_gpg ::
  "run_outcome \<Rightarrow> string option \<Rightarrow> string option \<Rightarrow> string option \<Rightarrow> run_outcome" where
  \<comment> \<open>\<open>subprocess.run(cmd, ...)\<close>: a command line holding \<open>None\<close> raises before the
      backend starts; otherwise the backend does what it does.\<close>
  "run_gpg gpg tmpfile enc_path keyid =
     (if tmpfile = None \<or> enc_path = None \<or> keyid = None
      then LaunchError ''expected str, bytes or os.PathLike object, not NoneType''
      else gpg)"

definition encrypt_failure :: "run_outcome \<Rightarrow> string option" where
  \<comment> \<open>Lines 84 to 89: the text of the \<open>RuntimeError\<close> that line 89 raises, if it does. The
      \<open>RuntimeError\<close> of line 87 is raised inside the \<open>try\<close>, so line 89 catches it and
      wraps its text once more.\<close>
  "encrypt_failure r =
     (case r of
        LaunchError msg \<Rightarrow> Some (''GPG encryption failed: '' @ msg)
      | Completed returncode stderr \<Rightarrow>
          if returncode \<noteq> 0 then
            Some (''GPG encryption failed: '' @
              ''GPG encryption failed with status code '' @ str_int returncode @ '':'' @
              [CHR 0x0A] @ stderr)
          else None)"

definition encrypt_result :: "run_outcome \<Rightarrow> unit result" where
  "encrypt_result r =
     (case encrypt_failure r of None \<Rightarrow> Return () | Some m \<Rightarrow> Raise (RuntimeError m))"

definition encrypt_back ::
  "thread \<Rightarrow> run_outcome \<Rightarrow> string option \<Rightarrow> string option \<Rightarrow> string option \<Rightarrow> world
     \<Rightarrow> unit result \<times> world" where
  \<comment> \<open>One call run on its own, on the thread \<open>th\<close> (which only the log records): when
      the lock is taken nobody releases it, and the call never returns. The lock is held
      from line 75 to the end of the \<open>with\<close> block.\<close>
  "encrypt_back th gpg tmpfile enc_path keyid w =
     (if locked w then (Block, w)
      else
        (let w1 = w\<lparr>locked := True\<rparr>;
             w2 = emit (Gpg_encrypt th tmpfile enc_path keyid) w1;
             r = encrypt_result (run_gpg gpg tmpfile enc_path keyid)
         in (r, w2\<lparr>locked := False\<rparr>)))"

section \<open>\<open>ChangeHandler\<close>\<close>

record change_handler =
  plaintext :: "string option"
  encrypted :: "string option"
  keyid :: "string option"

definition on_modified ::
  "change_handler \<Rightarrow> string \<Rightarrow> run_outcome \<Rightarrow> world \<Rightarrow> unit result \<times> world" where
  \<comment> \<open>\<open>src_path\<close> is \<open>event.src_path\<close>; \<open>except RuntimeError\<close> catches that class only.\<close>
  "on_modified self src_path gpg w =
     (if Some src_path = plaintext self then
        (case encrypt_back Watcher_thread gpg (plaintext self) (encrypted self) (keyid self) w of
           (Raise (RuntimeError m), w1) \<Rightarrow>
             (Return (), emit (Print_stderr (''Automatic re-encryption failed: '' @ m)) w1)
         | (r, w1) \<Rightarrow> (r, w1))
      else (Return (), w))"

section \<open>\<open>cleanup_and_exit\<close>\<close>

datatype input_outcome =
    Line string    \<comment> \<open>the operator enters a line\<close>
  | EOF            \<comment> \<open>standard input is at its end: \<open>input\<close> raises \<open>EOFError\<close>\<close>
  | Never          \<comment> \<open>no line ever comes\<close>

record cleanup_env =
  poll_finds :: "int option"        \<comment> \<open>the child's exit code, if it has ended by line 108\<close>
  terminate_finds :: "int option"   \<comment> \<open>the exit code \<open>terminate\<close> records, if the child has
                                        ended by then\<close>
  terminate_raises :: bool
  gpg_does :: run_outcome           \<comment> \<open>what the encryption backend does\<close>
  stdin_gives :: input_outcome      \<comment> \<open>what \<open>input\<close> reads\<close>

definition poll :: "int option \<Rightarrow> int option \<Rightarrow> int option" where
  \<comment> \<open>\<open>Popen.poll()\<close>: the recorded \<open>returncode\<close>, else what the system reports now.\<close>
  "poll finds returncode = (case returncode of None \<Rightarrow> finds | Some c \<Rightarrow> Some c)"

definition terminate_child :: "cleanup_env \<Rightarrow> world \<Rightarrow> world" where
  \<comment> \<open>Lines 108 to 113. \<open>terminate\<close> does not wait; an exception it raises is dropped.\<close>
  "terminate_child env w =
     (case PROCESS w of
        None \<Rightarrow> w
      | Some returncode \<Rightarrow>
          (let w1 = w\<lparr>PROCESS := Some (poll (poll_finds env) returncode)\<rparr> in
           if PROCESS w1 = Some None then
             (let w2 = emit (Print_stderr ''Terminating child process...'') w1;
                  w3 = emit Terminate w2
              in if terminate_raises env then w3
                 else w3\<lparr>PROCESS := Some (terminate_finds env)\<rparr>)
           else w1))"

definition under :: "string \<Rightarrow> string \<Rightarrow> bool" where
  \<comment> \<open>The path \<open>p\<close> is the directory \<open>d\<close> or lies below it.\<close>
  "under d p = (p = d \<or> startswith p (d @ ''/''))"

definition rmtree :: "string \<Rightarrow> world \<Rightarrow> world" where
  \<comment> \<open>\<open>shutil.rmtree\<close>: the directory goes with all it holds.\<close>
  "rmtree d w =
     emit (Rmtree d)
       (w\<lparr>dirs := filter (\<lambda>p. \<not> under d p) (dirs w),
          files := filter (\<lambda>p. \<not> under d p) (files w)\<rparr>)"

definition exit_code :: "world \<Rightarrow> int" where
  \<comment> \<open>Line 132: \<open>0 if (PROCESS and PROCESS.returncode in (0, None)) else 1\<close>.\<close>
  "exit_code w =
     (case PROCESS w of
        None \<Rightarrow> 1
      | Some returncode \<Rightarrow> if returncode = Some 0 \<or> returncode = None then 0 else 1)"

definition notice :: "string option \<Rightarrow> string" where
  \<comment> \<open>The text of line 123.\<close>
  "notice path =
     ''Please manually re-encrypt '' @ str_opt path @
     '' as you wish, and then press Enter to terminate this script. Otherwise, you will amost certainly LOSE DATA.''"

definition report_failure :: "exn \<Rightarrow> world \<Rightarrow> world" where
  \<comment> \<open>Lines 121 to 123.\<close>
  "report_failure e w =
     emit (Print_stderr (notice (PLAINTEXT_FILE w)))
       (emit (Print_stdout [])
         (emit (Print_stderr (''[ERROR]: Cleanup encryption failed: '' @ str_exn e)) w))"

definition stop_watcher :: "world \<Rightarrow> unit result \<times> world" where
  \<comment> \<open>Lines 127 to 129. Joining a thread that was never started raises.\<close>
  "stop_watcher w =
     (case WATCHER w of
        None \<Rightarrow> (Return (), w)
      | Some st \<Rightarrow>
          (let w1 = emit Watcher_stop (w\<lparr>WATCHER := Some (if st = Started then Stopped else st)\<rparr>)
           in if st = Created
              then (Raise (RuntimeError ''cannot join thread before it is started''), w1)
              else (Return (), emit Watcher_join (w1\<lparr>WATCHER := Some Joined\<rparr>))))"

definition remove_and_exit :: "world \<Rightarrow> unit result \<times> world" where
  \<comment> \<open>Lines 126 to 132.\<close>
  "remove_and_exit w =
     (case stop_watcher w of
        (Return u, w1) \<Rightarrow>
          (let w2 = (case TEMP_DIR w1 of
                       None \<Rightarrow> w1
                     | Some d \<Rightarrow> if d \<noteq> [] \<and> d \<in> set (dirs w1) then rmtree d w1 else w1)
           in (Raise (SystemExit (exit_code w2)), emit (Exit (exit_code w2)) w2))
      | (r, w1) \<Rightarrow> (r, w1))"

definition cleanup_and_exit :: "cleanup_env \<Rightarrow> world \<Rightarrow> unit result \<times> world" where
  "cleanup_and_exit env w =
     (let w1 = terminate_child env w in
      case encrypt_back Main_thread (gpg_does env) (PLAINTEXT_FILE w1) (ENCRYPTED_FILE w1)
             (RECIP_KEY w1) w1 of
        (Return u, w2) \<Rightarrow> remove_and_exit w2
      | (Block, w2) \<Rightarrow> (Block, w2)
      | (Raise e, w2) \<Rightarrow>
          if is_Exception e then
            (let w3 = report_failure e w2;
                 w4 = emit (Print_stdout ''Press Enter to continue...'') w3
             in case stdin_gives env of
                  Never \<Rightarrow> (Block, w4)
                | EOF \<Rightarrow> (Raise EOFError, w4)
                | Line l \<Rightarrow> remove_and_exit (emit (Acknowledged l) w4))
          else (Raise e, w2))"

section \<open>\<open>main\<close>\<close>

function replace :: "string \<Rightarrow> string \<Rightarrow> string \<Rightarrow> string" where
  "replace s old new =
     (if old = [] then new @ concat (map (\<lambda>c. c # new) s)
      else if s = [] then []
      else if startswith s old then new @ replace (drop (length old) s) old new
      else hd s # replace (tl s) old new)"
  by pat_completeness auto
termination
  by (relation "measure (\<lambda>(s, old, new). length s)") auto

declare replace.simps [simp del]

record args =
  arg_encrypted :: string
  arg_cmd :: string

record main_env =
  abspath_gives :: string      \<comment> \<open>\<open>os.path.abspath(args.encrypted)\<close>\<close>
  random_name :: string        \<comment> \<open>the random part of the directory \<open>mkdtemp\<close> makes\<close>
  gpg_decrypts :: run_outcome  \<comment> \<open>what the decryption backend does\<close>
  popen_raises :: "string option"
  changes :: "(string \<times> run_outcome) list"
     \<comment> \<open>the modification events the watcher handles while the child runs, each with
         what the encryption backend does then\<close>
  wait_gives :: "int option"   \<comment> \<open>the child's exit code; \<open>None\<close> when it never ends\<close>
  at_cleanup :: cleanup_env

definition decrypt_effects :: "string \<Rightarrow> run_outcome \<Rightarrow> string \<Rightarrow> world \<Rightarrow> world" where
  \<comment> \<open>What \<open>decrypt_to_tmp\<close> leaves on disk: the directory, and the plaintext when the
      backend has exited with code 0.\<close>
  "decrypt_effects random gpg enc_path w =
     (let tmpdir = mkdtemp random;
          tmpfile = path_join tmpdir (plaintext_name enc_path);
          w1 = w\<lparr>dirs := dirs w @ [tmpdir]\<rparr>
      in case gpg of
           Completed returncode stderr \<Rightarrow>
             if returncode = 0 then w1\<lparr>files := files w1 @ [tmpfile]\<rparr> else w1
         | LaunchError msg \<Rightarrow> w1)"

fun watch :: "change_handler \<Rightarrow> (string \<times> run_outcome) list \<Rightarrow> world \<Rightarrow> world" where
  \<comment> \<open>The watcher's thread calls \<open>on_modified\<close> for one event after the other.\<close>
  "watch h [] w = w"
| "watch h ((src_path, gpg) # rest) w = watch h rest (snd (on_modified h src_path gpg w))"

definition run_child :: "string \<Rightarrow> change_handler \<Rightarrow> main_env \<Rightarrow> world \<Rightarrow> unit result \<times> world" where
  \<comment> \<open>Lines 161 to 166.\<close>
  "run_child cmd h env w =
     (case popen_raises env of
        Some msg \<Rightarrow> (Return (), emit (Print_stderr (''Error running command: '' @ msg)) w)
      | None \<Rightarrow>
          (let w1 = emit (Popen cmd) (w\<lparr>PROCESS := Some None\<rparr>);
               w2 = watch h (changes env) w1
           in case wait_gives env of
                None \<Rightarrow> (Block, w2)
              | Some c \<Rightarrow> (Return (), w2\<lparr>PROCESS := Some (Some c)\<rparr>)))"

definition main :: "args \<Rightarrow> main_env \<Rightarrow> world \<Rightarrow> unit result \<times> world" where
  "main a env w =
     (if arg_cmd a = [] then
        (Raise (SystemExit 1),
         emit (Exit 1)
           (emit (Print_stderr ''Error: you must provide a command to run (with %FILE in it).'')
              w))
      else
        (let enc = abspath_gives env;
             w1 = w\<lparr>ENCRYPTED_FILE := Some enc\<rparr>
         in if enc \<notin> set (files w1) \<and> enc \<notin> set (dirs w1) then
              (Raise (SystemExit 1),
               emit (Exit 1)
                 (emit (Print_stderr (''Error: encrypted file does not exist: '' @ enc)) w1))
            else
              (let w2 = decrypt_effects (random_name env) (gpg_decrypts env) enc w1 in
               case decrypt_to_tmp (random_name env) (gpg_decrypts env) enc of
                 Inl e \<Rightarrow> (Raise e, w2)
               | Inr (tmpdir, tmpfile, recip) \<Rightarrow>
                   (let w3 = w2\<lparr>TEMP_DIR := Some tmpdir, PLAINTEXT_FILE := Some tmpfile,
                                RECIP_KEY := Some recip\<rparr>;
                        w4 = w3\<lparr>handlers := [SIGINT, SIGTERM]\<rparr>;
                        h = \<lparr>plaintext = Some tmpfile, encrypted = Some enc, keyid = Some recip\<rparr>;
                        w5 = w4\<lparr>WATCHER := Some Started\<rparr>;
                        cmd = replace (arg_cmd a) ''%FILE'' tmpfile
                    in case run_child cmd h env w5 of
                         (Return u, w6) \<Rightarrow> cleanup_and_exit (at_cleanup env) w6
                       | (r, w6) \<Rightarrow> (r, w6)))))"

definition exit_status :: "unit result \<Rightarrow> int option" where
  \<comment> \<open>The exit status of the interpreter: an exception nobody catches gives 1.\<close>
  "exit_status r =
     (case r of
        Return u \<Rightarrow> Some 0
      | Raise (SystemExit c) \<Rightarrow> Some c
      | Raise e \<Rightarrow> Some 1
      | Block \<Rightarrow> None)"

definition initial :: "string list \<Rightarrow> string list \<Rightarrow> world" where
  \<comment> \<open>The globals as lines 21 to 27 set them, on a disk with these directories and files.\<close>
  "initial ds fs =
     \<lparr>TEMP_DIR = None, PLAINTEXT_FILE = None, ENCRYPTED_FILE = None, RECIP_KEY = None,
      WATCHER = None, PROCESS = None, locked = False, handlers = [],
      dirs = ds, files = fs, log = []\<rparr>"

section \<open>A session used in the examples\<close>

definition example_world :: world where
  \<comment> \<open>After decryption of \<open>/home/u/notes.gpg\<close>: the workspace holds the plaintext, the
      handlers are installed and the watcher runs.\<close>
  "example_world =
     \<lparr>TEMP_DIR = Some ''/dev/shm/gpg-editr'',
      PLAINTEXT_FILE = Some ''/dev/shm/gpg-editr/notes'',
      ENCRYPTED_FILE = Some ''/home/u/notes.gpg'',
      RECIP_KEY = Some ''0123ABCD'',
      WATCHER = Some Started, PROCESS = None, locked = False,
      handlers = [SIGINT, SIGTERM],
      dirs = [''/home/u'', ''/dev/shm/gpg-editr''],
      files = [''/home/u/notes.gpg'', ''/dev/shm/gpg-editr/notes''],
      log = []\<rparr>"

definition example_handler :: change_handler where
  "example_handler =
     \<lparr>plaintext = Some ''/dev/shm/gpg-editr/notes'', encrypted = Some ''/home/u/notes.gpg'',
      keyid = Some ''0123ABCD''\<rparr>"

definition example_cleanup :: cleanup_env where
  \<comment> \<open>The child is still running, the backend encrypts, nobody types.\<close>
  "example_cleanup =
     \<lparr>poll_finds = None, terminate_finds = None, terminate_raises = False,
      gpg_does = Completed 0 [], stdin_gives = Never\<rparr>"

definition example_args :: args where
  "example_args = \<lparr>arg_encrypted = ''notes.gpg'', arg_cmd = ''vi %FILE''\<rparr>"

definition example_env :: main_env where
  \<comment> \<open>The child exits with code 0 and changes nothing.\<close>
  "example_env =
     \<lparr>abspath_gives = ''/home/u/notes.gpg'', random_name = ''r'',
      gpg_decrypts = Completed 0 ''[GNUPG:] ENC_TO 0123ABCD 1 0'',
      popen_raises = None, changes = [], wait_gives = Some 0,
      at_cleanup = example_cleanup\<rparr>"

section \<open>The session step by step\<close>

text \<open>
  The main thread is a stack of frames: \<open>main\<close> at the bottom and, above it, the calls
  of \<open>cleanup_and_exit\<close> in progress, the innermost first. A call made by line 169 sits
  on \<open>main\<close>; a call made by the signal handler sits on the frame the signal has
  interrupted, which goes on only if the handler's call ends with an exception that the
  frame catches. The watcher's thread runs \<open>on_modified\<close> for one event at a time. Every
  step is atomic; what the environment does at a step is given with the step.
\<close>

datatype cpc =
    K_poll                  \<comment> \<open>line 108\<close>
  | K_terminate             \<comment> \<open>line 111\<close>
  | K_acquire               \<comment> \<open>line 75, called from line 117: waiting for the lock\<close>
  | K_run                   \<comment> \<open>lines 76 to 85: the lock is held, the backend not yet invoked\<close>
  | K_running               \<comment> \<open>line 85: the backend is running\<close>
  | K_release "string option"
      \<comment> \<open>the end of the \<open>with\<close> block, with the text of the \<open>RuntimeError\<close> of line 89
          when the call raises\<close>
  | K_report exn            \<comment> \<open>lines 121 to 124, before the prompt\<close>
  | K_input                 \<comment> \<open>line 124: \<open>input\<close> waits for a line\<close>
  | K_stop                  \<comment> \<open>lines 127 and 128\<close>
  | K_join                  \<comment> \<open>line 129\<close>
  | K_rmtree                \<comment> \<open>lines 130 and 131\<close>
  | K_exit                  \<comment> \<open>line 132\<close>

datatype mpc =
    M_parse                 \<comment> \<open>lines 137 to 140\<close>
  | M_exists                \<comment> \<open>lines 142 to 145\<close>
  | M_decrypt               \<comment> \<open>line 148\<close>
  | M_signal_int            \<comment> \<open>line 152 for SIGINT\<close>
  | M_signal_term           \<comment> \<open>line 152 for SIGTERM\<close>
  | M_observer              \<comment> \<open>lines 155 to 157\<close>
  | M_start                 \<comment> \<open>line 158\<close>
  | M_popen                 \<comment> \<open>lines 161 and 163\<close>
  | M_wait                  \<comment> \<open>line 164\<close>
  | M_caught exn            \<comment> \<open>line 166\<close>
  | M_cleanup               \<comment> \<open>line 169\<close>

datatype frame = Main mpc | Cleanup cpc

datatype wpc =
    W_idle                  \<comment> \<open>between two events\<close>
  | W_acquire               \<comment> \<open>line 75, called from line 101: waiting for the lock\<close>
  | W_run
  | W_running
  | W_release "string option"
  | W_print string          \<comment> \<open>line 104\<close>

datatype status =
    Running
  | Exited int              \<comment> \<open>\<open>SystemExit\<close> has left the main thread\<close>
  | Crashed exn             \<comment> \<open>another exception has left the main thread\<close>
  | Killed signal           \<comment> \<open>a signal without a handler has ended the process\<close>

record system =
  globals :: world
  argv :: args
  stack :: "frame list"
  handler :: "change_handler option"   \<comment> \<open>the \<open>ChangeHandler\<close> of line 155\<close>
  wpc :: wpc
  status :: status

datatype action =
    Main_step main_env      \<comment> \<open>the innermost frame of the main thread takes its next step\<close>
  | Signal signal           \<comment> \<open>a signal is delivered to the process\<close>
  | Modified string         \<comment> \<open>the watcher's thread takes up an event for this path\<close>
  | Watcher_step run_outcome  \<comment> \<open>the handler on the watcher's thread takes its next step\<close>

definition boot :: "args \<Rightarrow> string list \<Rightarrow> string list \<Rightarrow> system" where
  "boot a ds fs =
     \<lparr>globals = initial ds fs, argv = a, stack = [Main M_parse], handler = None,
      wpc = W_idle, status = Running\<rparr>"

definition holds_lock :: "cpc \<Rightarrow> bool" where
  \<comment> \<open>The call is inside the \<open>with\<close> block.\<close>
  "holds_lock pc = (case pc of K_run \<Rightarrow> True | K_running \<Rightarrow> True | K_release r \<Rightarrow> True
                    | _ \<Rightarrow> False)"

fun catch :: "exn \<Rightarrow> frame \<Rightarrow> world \<Rightarrow> (frame \<times> world) option" where
  \<comment> \<open>An exception of class \<open>Exception\<close> reaches a frame: the \<open>try\<close> around the frame's
      position, if there is one, takes over. Leaving the \<open>with\<close> block releases the lock.\<close>
  "catch e (Main M_popen) w = Some (Main (M_caught e), w)"
| "catch e (Main M_wait) w = Some (Main (M_caught e), w)"
| "catch e (Main pc) w = None"
| "catch e (Cleanup K_terminate) w = Some (Cleanup K_acquire, w)"
| "catch e (Cleanup K_acquire) w = Some (Cleanup (K_report e), w)"
| "catch e (Cleanup K_run) w = Some (Cleanup (K_report e), w\<lparr>locked := False\<rparr>)"
| "catch e (Cleanup K_running) w =
     Some (Cleanup (K_report (RuntimeError (''GPG encryption failed: '' @ str_exn e))),
           w\<lparr>locked := False\<rparr>)"
| "catch e (Cleanup (K_release r)) w = Some (Cleanup (K_report e), w\<lparr>locked := False\<rparr>)"
| "catch e (Cleanup pc) w = None"

definition leave :: "frame \<Rightarrow> world \<Rightarrow> world" where
  \<comment> \<open>An exception leaves a frame: a \<open>with\<close> block on the way releases the lock.\<close>
  "leave f w = (case f of
                  Cleanup pc \<Rightarrow> if holds_lock pc then w\<lparr>locked := False\<rparr> else w
                | Main pc \<Rightarrow> w)"

fun unwind :: "exn \<Rightarrow> frame list \<Rightarrow> world \<Rightarrow> frame list \<times> world \<times> status" where
  "unwind e [] w = ([], w, (case e of SystemExit c \<Rightarrow> Exited c | _ \<Rightarrow> Crashed e))"
| "unwind e (f # fs) w =
     (case (if is_Exception e then catch e f w else None) of
        Some (f', w') \<Rightarrow> (f' # fs, w', Running)
      | None \<Rightarrow> unwind e fs (leave f w))"

definition raise :: "exn \<Rightarrow> system \<Rightarrow> system" where
  \<comment> \<open>The innermost frame raises \<open>e\<close>.\<close>
  "raise e s =
     (case unwind e (stack s) (globals s) of
        (fs, w, st) \<Rightarrow> s\<lparr>globals := w, stack := fs, status := st\<rparr>)"

definition goto :: "frame \<Rightarrow> system \<Rightarrow> system" where
  \<comment> \<open>The innermost frame moves on.\<close>
  "goto f s = s\<lparr>stack := f # tl (stack s)\<rparr>"

definition effect :: "(world \<Rightarrow> world) \<Rightarrow> system \<Rightarrow> system" where
  "effect f s = s\<lparr>globals := f (globals s)\<rparr>"

definition main_step :: "main_env \<Rightarrow> mpc \<Rightarrow> system \<Rightarrow> system" where
  "main_step env pc s =
     (let w = globals s in
      case pc of
        M_parse \<Rightarrow>
          if arg_cmd (argv s) = [] then
            raise (SystemExit 1)
              (effect (emit (Exit 1))
                (effect (emit (Print_stderr
                   ''Error: you must provide a command to run (with %FILE in it).'')) s))
          else goto (Main M_exists) s
      | M_exists \<Rightarrow>
          (let enc = abspath_gives env;
               s1 = effect (\<lambda>w. w\<lparr>ENCRYPTED_FILE := Some enc\<rparr>) s
           in if enc \<notin> set (files w) \<and> enc \<notin> set (dirs w) then
                raise (SystemExit 1)
                  (effect (emit (Exit 1))
                    (effect (emit (Print_stderr
                       (''Error: encrypted file does not exist: '' @ enc))) s1))
              else goto (Main M_decrypt) s1)
      | M_decrypt \<Rightarrow>
          (let enc = str_opt (ENCRYPTED_FILE w);
               s1 = effect (decrypt_effects (random_name env) (gpg_decrypts env) enc) s
           in case decrypt_to_tmp (random_name env) (gpg_decrypts env) enc of
                Inl e \<Rightarrow> raise e s1
              | Inr (tmpdir, tmpfile, recip) \<Rightarrow>
                  goto (Main M_signal_int)
                    (effect (\<lambda>w. w\<lparr>TEMP_DIR := Some tmpdir, PLAINTEXT_FILE := Some tmpfile,
                                    RECIP_KEY := Some recip\<rparr>) s1))
      | M_signal_int \<Rightarrow>
          goto (Main M_signal_term) (effect (\<lambda>w. w\<lparr>handlers := handlers w @ [SIGINT]\<rparr>) s)
      | M_signal_term \<Rightarrow>
          goto (Main M_observer) (effect (\<lambda>w. w\<lparr>handlers := handlers w @ [SIGTERM]\<rparr>) s)
      | M_observer \<Rightarrow>
          goto (Main M_start)
            ((effect (\<lambda>w. w\<lparr>WATCHER := Some Created\<rparr>) s)
               \<lparr>handler := Some \<lparr>plaintext = PLAINTEXT_FILE w, encrypted = ENCRYPTED_FILE w,
                                 keyid = RECIP_KEY w\<rparr>\<rparr>)
      | M_start \<Rightarrow>
          goto (Main M_popen) (effect (\<lambda>w. w\<lparr>WATCHER := Some Started\<rparr>) s)
      | M_popen \<Rightarrow>
          (case popen_raises env of
             Some msg \<Rightarrow> raise (OSError msg) s
           | None \<Rightarrow>
               goto (Main M_wait)
                 (effect (emit (Popen (replace (arg_cmd (argv s)) ''%FILE''
                                         (str_opt (PLAINTEXT_FILE w)))))
                    (effect (\<lambda>w. w\<lparr>PROCESS := Some None\<rparr>) s)))
      | M_wait \<Rightarrow>
          (case PROCESS w of
             None \<Rightarrow> raise (AttributeError ''wait'') s
           | Some returncode \<Rightarrow>
               (case poll (wait_gives env) returncode of
                  None \<Rightarrow> s
                | Some c \<Rightarrow>
                    goto (Main M_cleanup) (effect (\<lambda>w. w\<lparr>PROCESS := Some (Some c)\<rparr>) s)))
      | M_caught e \<Rightarrow>
          goto (Main M_cleanup)
            (effect (emit (Print_stderr (''Error running command: '' @ str_exn e))) s)
      | M_cleanup \<Rightarrow> s\<lparr>stack := Cleanup K_poll # stack s\<rparr>)"

definition cleanup_step :: "cleanup_env \<Rightarrow> cpc \<Rightarrow> system \<Rightarrow> system" where
  "cleanup_step env pc s =
     (let w = globals s in
      case pc of
        K_poll \<Rightarrow>
          (case PROCESS w of
             None \<Rightarrow> goto (Cleanup K_acquire) s
           | Some returncode \<Rightarrow>
               (let found = poll (poll_finds env) returncode;
                    s1 = effect (\<lambda>w. w\<lparr>PROCESS := Some found\<rparr>) s
                in if found = None then
                     goto (Cleanup K_terminate)
                       (effect (emit (Print_stderr ''Terminating child process...'')) s1)
                   else goto (Cleanup K_acquire) s1))
      | K_terminate \<Rightarrow>
          (let s1 = effect (emit Terminate) s in
           if terminate_raises env then raise (OSError ''terminate'') s1
           else goto (Cleanup K_acquire)
                  (effect (\<lambda>w. w\<lparr>PROCESS := Some (terminate_finds env)\<rparr>) s1))
      | K_acquire \<Rightarrow>
          if locked w then s
          else goto (Cleanup K_run) (effect (\<lambda>w. w\<lparr>locked := True\<rparr>) s)
      | K_run \<Rightarrow>
          goto (Cleanup K_running)
            (effect (emit (Gpg_encrypt Main_thread (PLAINTEXT_FILE w) (ENCRYPTED_FILE w)
                             (RECIP_KEY w))) s)
      | K_running \<Rightarrow>
          goto (Cleanup (K_release
                  (encrypt_failure (run_gpg (gpg_does env) (PLAINTEXT_FILE w)
                                      (ENCRYPTED_FILE w) (RECIP_KEY w))))) s
      | K_release r \<Rightarrow>
          (let s1 = effect (\<lambda>w. w\<lparr>locked := False\<rparr>) s in
           case r of
             None \<Rightarrow> goto (Cleanup K_stop) s1
           | Some m \<Rightarrow> goto (Cleanup (K_report (RuntimeError m))) s1)
      | K_report e \<Rightarrow>
          goto (Cleanup K_input)
            (effect (emit (Print_stdout ''Press Enter to continue...''))
               (effect (report_failure e) s))
      | K_input \<Rightarrow>
          (case stdin_gives env of
             Never \<Rightarrow> s
           | EOF \<Rightarrow> raise EOFError s
           | Line l \<Rightarrow> goto (Cleanup K_stop) (effect (emit (Acknowledged l)) s))
      | K_stop \<Rightarrow>
          (case WATCHER w of
             None \<Rightarrow> goto (Cleanup K_rmtree) s
           | Some st \<Rightarrow>
               goto (Cleanup K_join)
                 (effect (emit Watcher_stop)
                    (effect (\<lambda>w. w\<lparr>WATCHER := Some (if st = Started then Stopped else st)\<rparr>)
                       s)))
      | K_join \<Rightarrow>
          (case WATCHER w of
             None \<Rightarrow> goto (Cleanup K_rmtree) s
           | Some st \<Rightarrow>
               if st = Created then
                 raise (RuntimeError ''cannot join thread before it is started'') s
               else if st = Joined \<or> wpc s = W_idle then
                 goto (Cleanup K_rmtree)
                   (effect (emit Watcher_join) (effect (\<lambda>w. w\<lparr>WATCHER := Some Joined\<rparr>) s))
               else s)
      | K_rmtree \<Rightarrow>
          (case TEMP_DIR w of
             None \<Rightarrow> goto (Cleanup K_exit) s
           | Some d \<Rightarrow>
               if d \<noteq> [] \<and> d \<in> set (dirs w) then goto (Cleanup K_exit) (effect (rmtree d) s)
               else goto (Cleanup K_exit) s)
      | K_exit \<Rightarrow>
          raise (SystemExit (exit_code w)) (effect (emit (Exit (exit_code w))) s))"

definition watcher_alive :: "system \<Rightarrow> bool" where
  \<comment> \<open>The watcher's thread has been started and has not been joined.\<close>
  "watcher_alive s =
     (WATCHER (globals s) = Some Started \<or> WATCHER (globals s) = Some Stopped)"

definition watcher_event :: "string \<Rightarrow> system \<Rightarrow> system" where
  \<comment> \<open>Line 99: the thread calls \<open>on_modified\<close> when it is between two events.\<close>
  "watcher_event src_path s =
     (case handler s of
        None \<Rightarrow> s
      | Some h \<Rightarrow>
          if watcher_alive s \<and> wpc s = W_idle \<and> Some src_path = plaintext h
          then s\<lparr>wpc := W_acquire\<rparr> else s)"

definition watcher_step :: "run_outcome \<Rightarrow> system \<Rightarrow> system" where
  "watcher_step gpg s =
     (case handler s of
        None \<Rightarrow> s
      | Some h \<Rightarrow>
          (case wpc s of
             W_idle \<Rightarrow> s
           | W_acquire \<Rightarrow>
               if locked (globals s) then s
               else (effect (\<lambda>w. w\<lparr>locked := True\<rparr>) s)\<lparr>wpc := W_run\<rparr>
           | W_run \<Rightarrow>
               (effect (emit (Gpg_encrypt Watcher_thread (plaintext h) (encrypted h) (keyid h)))
                  s)\<lparr>wpc := W_running\<rparr>
           | W_running \<Rightarrow>
               s\<lparr>wpc := W_release
                          (encrypt_failure (run_gpg gpg (plaintext h) (encrypted h) (keyid h)))\<rparr>
           | W_release r \<Rightarrow>
               (let s1 = effect (\<lambda>w. w\<lparr>locked := False\<rparr>) s in
                case r of
                  None \<Rightarrow> s1\<lparr>wpc := W_idle\<rparr>
                | Some m \<Rightarrow> s1\<lparr>wpc := W_print m\<rparr>)
           | W_print m \<Rightarrow>
               (effect (emit (Print_stderr (''Automatic re-encryption failed: '' @ m)))
                  s)\<lparr>wpc := W_idle\<rparr>))"

definition step :: "system \<Rightarrow> action \<Rightarrow> system" where
  "step s a =
     (if status s \<noteq> Running then s
      else case a of
        Signal sg \<Rightarrow>
          if sg \<in> set (handlers (globals s)) then s\<lparr>stack := Cleanup K_poll # stack s\<rparr>
          else s\<lparr>status := Killed sg\<rparr>
      | Main_step env \<Rightarrow>
          (case stack s of
             [] \<Rightarrow> s
           | Main pc # fs \<Rightarrow> main_step env pc s
           | Cleanup pc # fs \<Rightarrow> cleanup_step (at_cleanup env) pc s)
      | Modified src_path \<Rightarrow> watcher_event src_path s
      | Watcher_step gpg \<Rightarrow> watcher_step gpg s)"

definition run :: "action list \<Rightarrow> system \<Rightarrow> system" where
  "run as s = foldl step s as"

definition holding :: "frame \<Rightarrow> bool" where
  \<comment> \<open>The frame is a call of \<open>cleanup_and_exit\<close> inside the \<open>with\<close> block of line 75.\<close>
  "holding f = (case f of Cleanup pc \<Rightarrow> holds_lock pc | Main pc \<Rightarrow> False)"

definition watcher_holding :: "wpc \<Rightarrow> bool" where
  \<comment> \<open>The handler on the watcher's thread is inside the \<open>with\<close> block of line 75.\<close>
  "watcher_holding pc =
     (case pc of W_run \<Rightarrow> True | W_running \<Rightarrow> True | W_release r \<Rightarrow> True | _ \<Rightarrow> False)"

definition holders :: "system \<Rightarrow> nat" where
  \<comment> \<open>The calls of \<open>encrypt_back\<close> that are inside the \<open>with\<close> block.\<close>
  "holders s =
     length (filter holding (stack s)) + (if watcher_holding (wpc s) then 1 else 0)"

definition in_backend :: "system \<Rightarrow> nat" where
  \<comment> \<open>The invocations of the encryption backend in progress.\<close>
  "in_backend s =
     length (filter (\<lambda>f. f = Cleanup K_running) (stack s))
       + (if wpc s = W_running then 1 else 0)"

definition lock_inv :: "frame list \<Rightarrow> wpc \<Rightarrow> world \<Rightarrow> bool" where
  \<comment> \<open>The lock is taken exactly when one call is inside the \<open>with\<close> block.\<close>
  "lock_inv fs pc w =
     (length (filter holding fs) + (if watcher_holding pc then 1 else 0)
        = (if locked w then 1 else 0))"

definition lock_ok :: "system \<Rightarrow> bool" where
  "lock_ok s = lock_inv (stack s) (wpc s) (globals s)"

definition concurrent_requests :: "action list" where
  \<comment> \<open>The child ends, line 169 calls the cleanup, the watcher takes up a last event and
      invokes the backend, and the cleanup reaches line 75.\<close>
  "concurrent_requests =
     replicate 10 (Main_step example_env)
     @ [Modified ''/dev/shm/gpg-editr/notes'', Watcher_step (Completed 0 []),
        Watcher_step (Completed 0 [])]
     @ replicate 2 (Main_step example_env)"

section \<open>What a run's log shows\<close>

text \<open>
  The calls of \<open>sys.exit\<close> and of \<open>shutil.rmtree\<close> in a log, and the invariants of the
  steps that the facts about them are proved with: a pattern of events \<open>seen\<close> in a log
  in this order, what the log must hold while a frame of \<open>cleanup_and_exit\<close> is at each of
  its lines, and what it must hold once the workspace has been removed.
\<close>

fun exit_calls :: "event list \<Rightarrow> int list" where
  \<comment> \<open>The calls of \<open>sys.exit\<close> in a log, with their codes.\<close>
  "exit_calls [] = []"
| "exit_calls (Exit c # l) = c # exit_calls l"
| "exit_calls (e # l) = exit_calls l"

definition exit_ok :: "system \<Rightarrow> bool" where
  "exit_ok s =
     (exit_calls (log (globals s)) = (case status s of Exited c \<Rightarrow> [c] | _ \<Rightarrow> []))"

fun shaped :: "frame list \<Rightarrow> bool" where
  "shaped [] = True"
| "shaped (Main pc # fs) = (fs = [])"
| "shaped (Cleanup c # fs) = shaped fs"

definition early :: "mpc \<Rightarrow> bool" where
  "early pc = (case pc of M_popen \<Rightarrow> False | M_wait \<Rightarrow> False | M_caught e \<Rightarrow> False
               | M_cleanup \<Rightarrow> False | _ \<Rightarrow> True)"

definition main_enc :: "event \<Rightarrow> bool" where
  "main_enc e = (case e of Gpg_encrypt th t p k \<Rightarrow> th = Main_thread | _ \<Rightarrow> False)"

fun seen :: "(event \<Rightarrow> bool) list \<Rightarrow> event list \<Rightarrow> bool" where
  "seen [] l = True"
| "seen (p # ps) [] = False"
| "seen (p # ps) (e # l) = (if p e then seen ps l else seen (p # ps) l)"

definition finished :: "bool \<Rightarrow> event list \<Rightarrow> bool" where
  "finished nw l =
     (if nw then seen [main_enc] l
      else seen [main_enc, (=) Watcher_stop, (=) Watcher_join] l)"

definition frame_ok :: "bool \<Rightarrow> event list \<Rightarrow> frame \<Rightarrow> bool" where
  "frame_ok nw l f =
     (case f of
        Main pc \<Rightarrow> True
      | Cleanup c \<Rightarrow>
          (case c of
             K_poll \<Rightarrow> True | K_terminate \<Rightarrow> True | K_acquire \<Rightarrow> True | K_run \<Rightarrow> True
           | K_join \<Rightarrow> \<not> nw \<and> seen [main_enc, (=) Watcher_stop] l
           | K_rmtree \<Rightarrow> finished nw l
           | K_exit \<Rightarrow> finished nw l
           | _ \<Rightarrow> seen [main_enc] l))"

fun removals :: "event list \<Rightarrow> string list" where
  "removals [] = []"
| "removals (Rmtree d # l) = d # removals l"
| "removals (e # l) = removals l"

definition watcher_enc :: "event \<Rightarrow> bool" where
  "watcher_enc e = (case e of Gpg_encrypt th t p k \<Rightarrow> th = Watcher_thread | _ \<Rightarrow> False)"

definition quiet_after_join :: "event list \<Rightarrow> bool" where
  "quiet_after_join l =
     (\<forall>l1 l2. l = l1 @ Watcher_join # l2 \<longrightarrow> (\<forall>e\<in>set l2. \<not> watcher_enc e))"

definition removal_ordered :: "bool \<Rightarrow> event list \<Rightarrow> bool" where
  "removal_ordered nw l =
     (\<forall>d. Rmtree d \<in> set l \<longrightarrow>
        (if nw then seen [main_enc, (=) (Rmtree d)] l
         else seen [main_enc, (=) Watcher_stop, (=) Watcher_join, (=) (Rmtree d)] l))"

definition removed_once :: "event list \<Rightarrow> string option \<Rightarrow> string list \<Rightarrow> bool" where
  "removed_once l td ds =
     (removals l = [] \<or> (\<exists>d. removals l = [d] \<and> td = Some d \<and> d \<notin> set ds))"

definition order_inv :: "frame list \<Rightarrow> world \<Rightarrow> wpc \<Rightarrow> status \<Rightarrow> bool" where
  "order_inv fs w wp st =
     (shaped fs
      \<and> (WATCHER w = None \<longrightarrow> (\<forall>pc. Main pc \<in> set fs \<longrightarrow> early pc))
      \<and> (st = Running \<longrightarrow>
           (\<forall>pc. fs = [Main pc] \<longrightarrow> early pc \<longrightarrow>
              log w = [] \<and> wp = W_idle \<and> (WATCHER w = None \<or> WATCHER w = Some Created)))
      \<and> (\<forall>f\<in>set fs. frame_ok (WATCHER w = None) (log w) f)
      \<and> removal_ordered (WATCHER w = None) (log w)
      \<and> removed_once (log w) (TEMP_DIR w) (dirs w)
      \<and> (Watcher_join \<in> set (log w) \<longrightarrow> WATCHER w = Some Joined)
      \<and> (WATCHER w = Some Joined \<longrightarrow> wp = W_idle)
      \<and> quiet_after_join (log w))"

definition order_ok :: "system \<Rightarrow> bool" where
  "order_ok s = order_inv (stack s) (globals s) (wpc s) (status s)"

text \<open>
  Schedules of the example session: one with no event but the main thread's steps, one in
  which \<open>SIGTERM\<close> arrives while the main thread is inside \<open>cleanup_and_exit\<close>, and one in
  which the editor's last write is noticed by the watcher only when the main thread has
  finished the final encryption.
\<close>

definition quiet_session :: "action list" where
  "quiet_session = replicate 19 (Main_step example_env)"



definition late_auto_save :: "action list" where
  "late_auto_save =
     replicate 15 (Main_step example_env)
     @ [Modified ''/dev/shm/gpg-editr/notes'']
     @ replicate 5 (Watcher_step (Completed 0 []))
     @ replicate 4 (Main_step example_env)"


section \<open>Facts about the string helpers\<close>

lemma rstrip_decompose:
  "s = rstrip s cs @ rev (takeWhile (\<lambda>c. c \<in> set cs) (rev s))"
proof -
  have "rstrip s cs @ rev (takeWhile (\<lambda>c. c \<in> set cs) (rev s)) =
      rev (takeWhile (\<lambda>c. c \<in> set cs) (rev s) @ dropWhile (\<lambda>c. c \<in> set cs) (rev s))"
    by (simp only: rstrip_def rev_append)
  also have "\<dots> = rev (rev s)"
    by (simp only: takeWhile_dropWhile_id)
  finally show ?thesis
    by simp
qed

lemma rstrip_stripped_part: "set (rev (takeWhile (\<lambda>c. c \<in> set cs) (rev s))) \<subseteq> set cs"
  by (auto dest: set_takeWhileD)

lemma rstrip_last: "rstrip s cs \<noteq> [] \<Longrightarrow> last (rstrip s cs) \<notin> set cs"
proof -
  assume ne: "rstrip s cs \<noteq> []"
  then have d: "dropWhile (\<lambda>c. c \<in> set cs) (rev s) \<noteq> []"
    by (simp add: rstrip_def)
  then have "hd (dropWhile (\<lambda>c. c \<in> set cs) (rev s)) \<notin> set cs"
    using hd_dropWhile [of "\<lambda>c. c \<in> set cs" "rev s"] by simp
  with d show ?thesis
    by (simp add: rstrip_def last_rev)
qed

lemma rstrip_all: "set s \<subseteq> set cs \<Longrightarrow> rstrip s cs = []"
  by (auto simp: rstrip_def dropWhile_eq_Nil_conv)

lemma decrypt_to_tmp_tmpfile:
  "decrypt_to_tmp random gpg p = Inr (d, f, k) \<Longrightarrow>
     d = mkdtemp random \<and> f = path_join (mkdtemp random) (plaintext_name p)"
  by (auto simp: decrypt_to_tmp_def Let_def
           split: run_outcome.splits if_splits sum.splits option.splits)

section \<open>The name of the plaintext file\<close>

text \<open>
  Claim C10. For every path \<open>p\<close> of an encrypted file, \<open>decrypt_to_tmp\<close> names the
  plaintext file by \<open>str.rstrip(".gpg")\<close> of the basename, which removes every trailing
  character of the set \<open>{'.', 'g', 'p'}\<close> and not one suffix \<open>.gpg\<close>: the basename is the
  plaintext name followed by characters of that set only, and the plaintext name is empty
  or ends in a character outside the set. So \<open>app.gpg\<close> gives the name \<open>a\<close> (not
  \<open>app\<close>), a basename made of those characters only gives the empty name, and this name
  is the one in the path \<open>decrypt_to_tmp\<close> returns.
\<close>

theorem plaintext_name_rstrip_char_set:
  "(\<exists>rest. basename p = plaintext_name p @ rest
        \<and> set rest \<subseteq> {CHR ''.'', CHR ''g'', CHR ''p''}
        \<and> (plaintext_name p = [] \<or> last (plaintext_name p) \<notin> {CHR ''.'', CHR ''g'', CHR ''p''}))
   \<and> plaintext_name ''app.gpg'' = ''a''
   \<and> (set (basename p) \<subseteq> {CHR ''.'', CHR ''g'', CHR ''p''} \<longrightarrow> plaintext_name p = [])
   \<and> (decrypt_to_tmp random gpg p = Inr (d, f, k) \<longrightarrow>
        f = path_join (mkdtemp random) (plaintext_name p))"
proof -
  let ?cs = "''.gpg''"
  have cs: "set ?cs = {CHR ''.'', CHR ''g'', CHR ''p''}"
    by auto
  have "basename p = plaintext_name p @ rev (takeWhile (\<lambda>c. c \<in> set ?cs) (rev (basename p)))"
    unfolding plaintext_name_def by (rule rstrip_decompose)
  moreover have "set (rev (takeWhile (\<lambda>c. c \<in> set ?cs) (rev (basename p)))) \<subseteq> set ?cs"
    by (rule rstrip_stripped_part)
  moreover have "plaintext_name p = [] \<or> last (plaintext_name p) \<notin> set ?cs"
    unfolding plaintext_name_def using rstrip_last [of "basename p" ?cs] by blast
  ultimately have first: "\<exists>rest. basename p = plaintext_name p @ rest
        \<and> set rest \<subseteq> {CHR ''.'', CHR ''g'', CHR ''p''}
        \<and> (plaintext_name p = [] \<or> last (plaintext_name p) \<notin> {CHR ''.'', CHR ''g'', CHR ''p''})"
    unfolding cs by blast
  have second: "plaintext_name ''app.gpg'' = ''a''"
    by (simp add: plaintext_name_def basename_def rstrip_def)
  have third: "set (basename p) \<subseteq> {CHR ''.'', CHR ''g'', CHR ''p''} \<longrightarrow> plaintext_name p = []"
    unfolding plaintext_name_def using rstrip_all [of "basename p" ?cs] cs by simp
  have fourth: "decrypt_to_tmp random gpg p = Inr (d, f, k) \<longrightarrow>
        f = path_join (mkdtemp random) (plaintext_name p)"
    using decrypt_to_tmp_tmpfile by blast
  from first second third fourth show ?thesis
    by blast
qed

theorem plaintext_name_rstrip_char_set_witness:
  "set (basename ''/home/u/pg.gpg'') \<subseteq> {CHR ''.'', CHR ''g'', CHR ''p''}
   \<and> plaintext_name ''/home/u/pg.gpg'' = []
   \<and> decrypt_to_tmp ''r'' (Completed 0 ''[GNUPG:] ENC_TO 0123ABCD 1 0'') ''/home/u/pg.gpg''
       = Inr (''/dev/shm/gpg-editr'', ''/dev/shm/gpg-editr/'', ''0123ABCD'')
   \<and> (\<exists>rest. basename ''/home/u/pg.gpg'' = plaintext_name ''/home/u/pg.gpg'' @ rest)"
  using plaintext_name_rstrip_char_set
    [of "''/home/u/pg.gpg''" "''r''" "Completed 0 ''[GNUPG:] ENC_TO 0123ABCD 1 0''"
        "''/dev/shm/gpg-editr''" "''/dev/shm/gpg-editr/''" "''0123ABCD''"]
  by (simp add: basename_def decrypt_to_tmp_def mkdtemp_def path_join_def startswith_def
        plaintext_name_def rstrip_def splitlines_def linebreak_def split_def isspace_def
        index2_def)

section \<open>The scan for the recipient\<close>

text \<open>
  Claim C5. The claim says that the scan of \<open>decrypt_to_tmp\<close> either finds a recipient or
  raises the no-recipient error, and never reads \<open>parts[2]\<close> out of range. On the status
  stream whose only line is \<open>[GNUPG:] ENC_TO\<close> the line splits into two parts, the guard
  \<open>len(parts) >= 2\<close> holds, and \<open>parts[2]\<close> raises \<open>IndexError\<close>: the scan raises it, and
  so does \<open>decrypt_to_tmp\<close>.
\<close>

theorem scan_keyid_index_out_of_range:
  "split ''[GNUPG:] ENC_TO'' = [''[GNUPG:]'', ''ENC_TO'']
   \<and> scan_keyid (splitlines ''[GNUPG:] ENC_TO'') = Inl IndexError
   \<and> decrypt_to_tmp ''r'' (Completed 0 ''[GNUPG:] ENC_TO'') ''/home/u/notes.gpg''
       = Inl IndexError"
  by (simp add: decrypt_to_tmp_def splitlines_def linebreak_def startswith_def split_def
        isspace_def index2_def)

text \<open>
  Claim C6. The claim says that, when the backend exits with code 0, \<open>decrypt_to_tmp\<close>
  raises the no-recipient failure if no status line names the recipient and returns the
  path and the recipient otherwise. With the line \<open>[GNUPG:] ENC_TO\<close> (no key) in the
  stream it does neither: alone, the line makes it raise \<open>IndexError\<close> where the
  no-recipient failure is due; before a line that names the recipient, it makes it raise
  \<open>IndexError\<close> where the recipient is due.
\<close>

theorem decrypt_to_tmp_neither_failure_nor_result:
  "decrypt_to_tmp ''r'' (Completed 0 (''gpg: note'' @ [CHR 0x0A] @ ''[GNUPG:] ENC_TO''))
       ''/home/u/notes.gpg'' = Inl IndexError
   \<and> decrypt_to_tmp ''r''
        (Completed 0 (''[GNUPG:] ENC_TO'' @ [CHR 0x0A] @ ''[GNUPG:] ENC_TO 0123ABCD 1 0''))
        ''/home/u/notes.gpg'' = Inl IndexError
   \<and> decrypt_to_tmp ''r'' (Completed 0 ''[GNUPG:] ENC_TO 0123ABCD 1 0'') ''/home/u/notes.gpg''
       = Inr (''/dev/shm/gpg-editr'', ''/dev/shm/gpg-editr/notes'', ''0123ABCD'')
   \<and> IndexError \<noteq> no_recipient"
  by (simp add: decrypt_to_tmp_def splitlines_def linebreak_def startswith_def split_def
        isspace_def index2_def no_recipient_def mkdtemp_def path_join_def plaintext_name_def
        basename_def rstrip_def)

section \<open>One call of \<open>encrypt_back\<close>, of the handler and of the cleanup\<close>

lemma encrypt_back_Raise:
  "encrypt_back th g t p k w = (Raise e, w2) \<Longrightarrow>
     (\<exists>m. e = RuntimeError m) \<and> \<not> locked w \<and> w2 = w\<lparr>log := log w @ [Gpg_encrypt th t p k]\<rparr>"
  by (auto simp: encrypt_back_def encrypt_result_def encrypt_failure_def emit_def Let_def
           split: if_splits run_outcome.splits option.splits)

lemma encrypt_back_Return:
  "encrypt_back th g t p k w = (Return u, w2) \<Longrightarrow>
     \<not> locked w \<and> w2 = w\<lparr>log := log w @ [Gpg_encrypt th t p k]\<rparr>"
  by (auto simp: encrypt_back_def encrypt_result_def encrypt_failure_def emit_def Let_def
           split: if_splits run_outcome.splits option.splits)

lemma encrypt_back_Block:
  "encrypt_back th g t p k w = (Block, w2) \<Longrightarrow> locked w \<and> w2 = w"
  by (auto simp: encrypt_back_def encrypt_result_def encrypt_failure_def emit_def Let_def
           split: if_splits run_outcome.splits option.splits)



lemma under_self: "under d d"
  by (simp add: under_def)


lemma remove_and_exit_code:
  "remove_and_exit w = (Raise (SystemExit c), w') \<Longrightarrow>
     c = exit_code w' \<and> PROCESS w' = PROCESS w"
  by (auto simp: remove_and_exit_def stop_watcher_def rmtree_def emit_def Let_def exit_code_def
           split: option.splits if_splits prod.splits result.splits)

lemma encrypt_back_PROCESS:
  "encrypt_back th g t p k w = (r, w2) \<Longrightarrow> PROCESS w2 = PROCESS w"
  by (auto simp: encrypt_back_def emit_def Let_def split: if_splits)

lemma cleanup_and_exit_code:
  assumes "cleanup_and_exit env w = (Raise (SystemExit c), w')"
  shows "c = exit_code w' \<and> PROCESS w' = PROCESS (terminate_child env w)"
proof -
  let ?w1 = "terminate_child env w"
  obtain r0 w2 where enc: "encrypt_back Main_thread (gpg_does env) (PLAINTEXT_FILE ?w1)
        (ENCRYPTED_FILE ?w1) (RECIP_KEY ?w1) ?w1 = (r0, w2)"
    by (cases "encrypt_back Main_thread (gpg_does env) (PLAINTEXT_FILE ?w1)
        (ENCRYPTED_FILE ?w1) (RECIP_KEY ?w1) ?w1") blast
  have p2: "PROCESS w2 = PROCESS ?w1"
    using encrypt_back_PROCESS [OF enc] .
  show ?thesis
  proof (cases r0)
    case (Return u)
    with assms enc have "remove_and_exit w2 = (Raise (SystemExit c), w')"
      by (simp add: cleanup_and_exit_def Let_def)
    from remove_and_exit_code [OF this] p2 show ?thesis by simp
  next
    case Block
    with assms enc show ?thesis
      by (simp add: cleanup_and_exit_def Let_def)
  next
    case (Raise e)
    with enc encrypt_back_Raise [of Main_thread "gpg_does env" _ _ _ ?w1 e w2]
    obtain m where e: "e = RuntimeError m" by blast
    show ?thesis
    proof (cases "stdin_gives env")
      case (Line l)
      let ?w5 = "emit (Acknowledged l)
                  (emit (Print_stdout ''Press Enter to continue...'') (report_failure e w2))"
      from assms enc Raise Line e have "remove_and_exit ?w5 = (Raise (SystemExit c), w')"
        by (simp add: cleanup_and_exit_def Let_def is_Exception_def)
      from remove_and_exit_code [OF this] p2 show ?thesis
        by (simp add: emit_def report_failure_def)
    next
      case EOF
      with assms enc Raise e show ?thesis
        by (simp add: cleanup_and_exit_def Let_def is_Exception_def)
    next
      case Never
      with assms enc Raise e show ?thesis
        by (simp add: cleanup_and_exit_def Let_def is_Exception_def)
    qed
  qed
qed

lemma terminate_child_env:
  "terminate_child (env\<lparr>gpg_does := g, stdin_gives := i\<rparr>) w = terminate_child env w"
  by (simp add: terminate_child_def Let_def split: option.splits)

lemmas cleanup_defs = cleanup_and_exit_def terminate_child_def poll_def encrypt_back_def
  emit_def run_gpg_def encrypt_result_def encrypt_failure_def remove_and_exit_def stop_watcher_def rmtree_def
  under_def startswith_def exit_code_def Let_def report_failure_def notice_def str_opt_def
  is_Exception_def str_int_def str_nat.simps example_world_def example_cleanup_def
  example_handler_def on_modified_def

lemmas main_defs = main_def run_child_def decrypt_effects_def decrypt_to_tmp_def mkdtemp_def
  path_join_def plaintext_name_def basename_def rstrip_def splitlines_def linebreak_def
  split_def isspace_def index2_def initial_def example_args_def example_env_def
  replace.simps exit_status_def

section \<open>A failed automatic re-encryption\<close>

text \<open>
  Claim C9. For every failure of the re-encryption that \<open>on_modified\<close> starts (the event
  is for the plaintext file and \<open>encrypt_back\<close> raises \<open>e\<close>), the exception is a
  \<open>RuntimeError\<close>, the handler catches it and returns normally, and the world after the
  handler is the world before it with two more entries in its log: the invocation of the
  backend and the failure printed to standard error. Nothing else changes: the child is
  not terminated (\<open>PROCESS\<close> is as before and the log has no \<open>Terminate\<close>), the lock is
  free again, the watcher and the workspace are as before, so the session goes on.
\<close>

theorem on_modified_failure_is_reported:
  assumes "Some src_path = plaintext self"
    and "encrypt_back Watcher_thread g (plaintext self) (encrypted self) (keyid self) w
           = (Raise e, w1)"
  shows "\<exists>m. e = RuntimeError m
     \<and> on_modified self src_path g w =
         (Return (),
          w\<lparr>log := log w @ [Gpg_encrypt Watcher_thread (plaintext self) (encrypted self)
                              (keyid self),
                            Print_stderr (''Automatic re-encryption failed: '' @ m)]\<rparr>)"
  using assms encrypt_back_Raise [OF assms(2)]
  by (auto simp: on_modified_def emit_def)

theorem on_modified_failure_is_reported_witness:
  "on_modified example_handler ''/dev/shm/gpg-editr/notes'' (Completed 2 ''no key'')
       (example_world\<lparr>PROCESS := Some None\<rparr>)
     = (Return (),
        example_world\<lparr>PROCESS := Some None,
          log := [Gpg_encrypt Watcher_thread (Some ''/dev/shm/gpg-editr/notes'')
                    (Some ''/home/u/notes.gpg'')
                    (Some ''0123ABCD''),
                  Print_stderr (''Automatic re-encryption failed: GPG encryption failed: '' @
                    ''GPG encryption failed with status code 2:'' @ [CHR 0x0A] @ ''no key'')]\<rparr>)"
  using on_modified_failure_is_reported
    [of "''/dev/shm/gpg-editr/notes''" example_handler "Completed 2 ''no key''"
        "example_world\<lparr>PROCESS := Some None\<rparr>"
        "RuntimeError (''GPG encryption failed: '' @
                    ''GPG encryption failed with status code 2:'' @ [CHR 0x0A] @ ''no key'')"
        "example_world\<lparr>PROCESS := Some None,
          log := [Gpg_encrypt Watcher_thread (Some ''/dev/shm/gpg-editr/notes'')
                    (Some ''/home/u/notes.gpg'')
                    (Some ''0123ABCD'')]\<rparr>"]
  by (simp add: cleanup_defs)

section \<open>A failed final encryption\<close>



section \<open>The exit status\<close>

text \<open>
  Claim C4, the counterexample. The claim gives the exit status 0 to a session in which
  no child was ever started. When \<open>Popen\<close> raises, \<open>PROCESS\<close> stays \<open>None\<close>, the cleanup
  encrypts and removes the workspace, and line 132 exits with status 1.
\<close>

theorem no_child_exit_status_counterexample:
  "fst (main example_args (example_env\<lparr>popen_raises := Some ''boom''\<rparr>)
          (initial [''/home/u''] [''/home/u/notes.gpg''])) = Raise (SystemExit 1)
   \<and> PROCESS (snd (main example_args (example_env\<lparr>popen_raises := Some ''boom''\<rparr>)
          (initial [''/home/u''] [''/home/u/notes.gpg'']))) = None"
  by (simp add: main_defs cleanup_defs)

text \<open>
  Claim C4, as amended. Whenever \<open>cleanup_and_exit\<close> reaches its \<open>sys.exit\<close>, the exit
  status is a function of the child's recorded state only: 0 when a child was started and
  its recorded return code is 0 or is still \<open>None\<close> (the child had not ended when the
  cleanup last looked), 1 when the recorded return code is another number or when no
  child was ever started. The recorded state is the one left by lines 108 to 113, and the
  status is the same whatever the encryption backend and the operator do.
\<close>

theorem exit_status_from_child_only:
  assumes "cleanup_and_exit env w = (Raise (SystemExit c), w')"
  shows "c = (case PROCESS w' of
                None \<Rightarrow> 1
              | Some returncode \<Rightarrow> if returncode = Some 0 \<or> returncode = None then 0 else 1)
         \<and> PROCESS w' = PROCESS (terminate_child env w)
         \<and> (\<forall>g i c2 w2.
               cleanup_and_exit (env\<lparr>gpg_does := g, stdin_gives := i\<rparr>) w
                 = (Raise (SystemExit c2), w2) \<longrightarrow> c2 = c)"
proof -
  from cleanup_and_exit_code [OF assms] have
    c: "c = exit_code w'" and p: "PROCESS w' = PROCESS (terminate_child env w)"
    by simp_all
  have "c2 = c" if "cleanup_and_exit (env\<lparr>gpg_does := g, stdin_gives := i\<rparr>) w
                 = (Raise (SystemExit c2), w2)" for g i c2 w2
  proof -
    from cleanup_and_exit_code [OF that] have
      "c2 = exit_code w2" "PROCESS w2 = PROCESS (terminate_child env w)"
      by (simp_all add: terminate_child_env)
    with c p show ?thesis
      by (simp add: exit_code_def)
  qed
  with c p show ?thesis
    by (simp add: exit_code_def)
qed

theorem exit_status_from_child_only_witness:
  "fst (cleanup_and_exit (example_cleanup\<lparr>poll_finds := Some 3\<rparr>)
          (example_world\<lparr>PROCESS := Some None\<rparr>)) = Raise (SystemExit 1)
   \<and> PROCESS (snd (cleanup_and_exit (example_cleanup\<lparr>poll_finds := Some 3\<rparr>)
          (example_world\<lparr>PROCESS := Some None\<rparr>))) = Some (Some 3)
   \<and> fst (cleanup_and_exit
          (example_cleanup\<lparr>poll_finds := Some 3, gpg_does := Completed 2 ''no key'',
             stdin_gives := Line []\<rparr>)
          (example_world\<lparr>PROCESS := Some None\<rparr>)) = Raise (SystemExit 1)"
  using exit_status_from_child_only
    [of "example_cleanup\<lparr>poll_finds := Some 3\<rparr>" "example_world\<lparr>PROCESS := Some None\<rparr>" 1
        "snd (cleanup_and_exit (example_cleanup\<lparr>poll_finds := Some 3\<rparr>)
          (example_world\<lparr>PROCESS := Some None\<rparr>))"]
  by (simp add: cleanup_defs)

section \<open>The plaintext at the end of the session\<close>

text \<open>
  Claim C1. The claim says that the plaintext never survives the end of the session. In
  the session below the child exits with code 0, the final encryption fails (the backend
  exits with code 2) and standard input is at its end: \<open>input\<close> raises \<open>EOFError\<close>, which
  nothing catches, so \<open>main\<close> ends with that exception (exit status 1) before line 126.
  The watcher is not stopped, no \<open>rmtree\<close> is in the log, and the workspace
  \<open>/dev/shm/gpg-editr\<close> still holds the plaintext \<open>notes\<close>.
\<close>

theorem plaintext_survives_eof:
  "main example_args
      (example_env\<lparr>at_cleanup :=
         example_cleanup\<lparr>gpg_does := Completed 2 ''no key'', stdin_gives := EOF\<rparr>\<rparr>)
      (initial [''/home/u''] [''/home/u/notes.gpg''])
   = (Raise EOFError,
      \<lparr>TEMP_DIR = Some ''/dev/shm/gpg-editr'',
       PLAINTEXT_FILE = Some ''/dev/shm/gpg-editr/notes'',
       ENCRYPTED_FILE = Some ''/home/u/notes.gpg'',
       RECIP_KEY = Some ''0123ABCD'',
       WATCHER = Some Started, PROCESS = Some (Some 0), locked = False,
      handlers = [SIGINT, SIGTERM],
       dirs = [''/home/u'', ''/dev/shm/gpg-editr''],
       files = [''/home/u/notes.gpg'', ''/dev/shm/gpg-editr/notes''],
       log = [Popen ''vi /dev/shm/gpg-editr/notes'',
              Gpg_encrypt Main_thread (Some ''/dev/shm/gpg-editr/notes'')
                    (Some ''/home/u/notes.gpg'')
                (Some ''0123ABCD''),
              Print_stderr (''[ERROR]: Cleanup encryption failed: GPG encryption failed: '' @
                ''GPG encryption failed with status code 2:'' @ [CHR 0x0A] @ ''no key''),
              Print_stdout [],
              Print_stderr (notice (Some ''/dev/shm/gpg-editr/notes'')),
              Print_stdout ''Press Enter to continue...'']\<rparr>)
   \<and> exit_status (Raise EOFError) = Some 1"
  by (simp add: main_defs cleanup_defs)

section \<open>Facts about the steps\<close>

lemma effect_fields [simp]:
  "globals (effect f s) = f (globals s)" "stack (effect f s) = stack s"
  "wpc (effect f s) = wpc s" "status (effect f s) = status s"
  "handler (effect f s) = handler s" "argv (effect f s) = argv s"
  by (simp_all add: effect_def)

lemma goto_fields [simp]:
  "globals (goto f s) = globals s" "stack (goto f s) = f # tl (stack s)"
  "wpc (goto f s) = wpc s" "status (goto f s) = status s"
  "handler (goto f s) = handler s" "argv (goto f s) = argv s"
  by (simp_all add: goto_def)

lemma raise_fields [simp]:
  "wpc (raise e s) = wpc s" "handler (raise e s) = handler s" "argv (raise e s) = argv s"
  by (simp_all add: raise_def split: prod.splits)

lemma emit_fields [simp]:
  "locked (emit e w) = locked w" "log (emit e w) = log w @ [e]"
  "WATCHER (emit e w) = WATCHER w" "PROCESS (emit e w) = PROCESS w"
  "TEMP_DIR (emit e w) = TEMP_DIR w" "dirs (emit e w) = dirs w" "files (emit e w) = files w"
  "handlers (emit e w) = handlers w" "PLAINTEXT_FILE (emit e w) = PLAINTEXT_FILE w"
  "ENCRYPTED_FILE (emit e w) = ENCRYPTED_FILE w" "RECIP_KEY (emit e w) = RECIP_KEY w"
  by (simp_all add: emit_def)

lemma rmtree_fields [simp]:
  "locked (rmtree d w) = locked w" "log (rmtree d w) = log w @ [Rmtree d]"
  "WATCHER (rmtree d w) = WATCHER w" "PROCESS (rmtree d w) = PROCESS w"
  "TEMP_DIR (rmtree d w) = TEMP_DIR w" "handlers (rmtree d w) = handlers w"
  "dirs (rmtree d w) = filter (\<lambda>p. \<not> under d p) (dirs w)"
  by (simp_all add: rmtree_def)

lemma report_failure_fields [simp]:
  "locked (report_failure e w) = locked w" 
  "WATCHER (report_failure e w) = WATCHER w" "PROCESS (report_failure e w) = PROCESS w"
  "TEMP_DIR (report_failure e w) = TEMP_DIR w" "dirs (report_failure e w) = dirs w"
  "handlers (report_failure e w) = handlers w"
  by (simp_all add: report_failure_def)

lemma decrypt_effects_fields [simp]:
  "locked (decrypt_effects r g p w) = locked w" "log (decrypt_effects r g p w) = log w"
  "WATCHER (decrypt_effects r g p w) = WATCHER w" "PROCESS (decrypt_effects r g p w) = PROCESS w"
  "TEMP_DIR (decrypt_effects r g p w) = TEMP_DIR w"
  "handlers (decrypt_effects r g p w) = handlers w"
  by (simp_all add: decrypt_effects_def Let_def split: run_outcome.splits)

section \<open>The lock\<close>

lemma catch_lock:
  "catch e f w = Some (f', w') \<Longrightarrow> lock_inv (f # fs) pc w \<Longrightarrow> lock_inv (f' # fs) pc w'"
  by (induction e f w rule: catch.induct)
     (auto simp: lock_inv_def holding_def holds_lock_def split: if_splits)

lemma leave_lock:
  "lock_inv (f # fs) pc w \<Longrightarrow> lock_inv fs pc (leave f w)"
  by (auto simp: lock_inv_def leave_def holding_def split: frame.splits if_splits)

lemma unwind_lock:
  "unwind e fs w = (fs', w', st) \<Longrightarrow> lock_inv fs pc w \<Longrightarrow> lock_inv fs' pc w'"
proof (induction e fs w rule: unwind.induct)
  case (1 e w)
  then show ?case by simp
next
  case (2 e f fs w)
  show ?case
  proof (cases "if is_Exception e then catch e f w else None")
    case None
    with 2 show ?thesis
      by (simp add: leave_lock)
  next
    case (Some a)
    obtain f1 w1 where a: "a = (f1, w1)" by (cases a)
    with Some have c: "catch e f w = Some (f1, w1)"
      by (simp split: if_splits)
    from "2.prems" Some a have "fs' = f1 # fs" "w' = w1" by simp_all
    with catch_lock [OF c "2.prems"(2)] show ?thesis by simp
  qed
qed

lemma raise_lock: "lock_ok s \<Longrightarrow> lock_ok (raise e s)"
  unfolding lock_ok_def raise_def
  by (auto split: prod.splits dest: unwind_lock)

lemma lock_ok_effect [simp]:
  "(\<And>w. locked (f w) = locked w) \<Longrightarrow> lock_ok (effect f s) = lock_ok s"
  by (simp add: lock_ok_def lock_inv_def)

lemma lock_ok_handler [simp]: "lock_ok (s\<lparr>handler := h\<rparr>) = lock_ok s"
  by (simp add: lock_ok_def)

lemma lock_ok_goto:
  "lock_ok s \<Longrightarrow> stack s = f # fs \<Longrightarrow> holding f' = holding f \<Longrightarrow> lock_ok (goto f' s)"
  by (auto simp: lock_ok_def lock_inv_def split: if_splits)

lemma lock_ok_push:
  "lock_ok s \<Longrightarrow> stack s = fs \<Longrightarrow> \<not> holding f \<Longrightarrow> lock_ok (s\<lparr>stack := f # fs\<rparr>)"
  by (auto simp: lock_ok_def lock_inv_def split: if_splits)

lemma lock_ok_acquire:
  "lock_ok s \<Longrightarrow> stack s = f # fs \<Longrightarrow> \<not> holding f \<Longrightarrow> holding f' \<Longrightarrow>
     \<not> locked (globals s) \<Longrightarrow>
     lock_ok (goto f' (effect (\<lambda>w. w\<lparr>locked := True\<rparr>) s))"
  by (auto simp: lock_ok_def lock_inv_def split: if_splits)

lemma lock_ok_release:
  "lock_ok s \<Longrightarrow> stack s = f # fs \<Longrightarrow> holding f \<Longrightarrow> \<not> holding f' \<Longrightarrow>
     lock_ok (goto f' (effect (\<lambda>w. w\<lparr>locked := False\<rparr>) s))"
  by (auto simp: lock_ok_def lock_inv_def split: if_splits)

lemma holding_simps [simp]:
  "holding (Main pc) = False"
  "holding (Cleanup c) = holds_lock c"
  by (simp_all add: holding_def)

lemma holds_lock_simps [simp]:
  "holds_lock K_poll = False" "holds_lock K_terminate = False" "holds_lock K_acquire = False"
  "holds_lock K_run = True" "holds_lock K_running = True" "holds_lock (K_release r) = True"
  "holds_lock (K_report e) = False" "holds_lock K_input = False" "holds_lock K_stop = False"
  "holds_lock K_join = False" "holds_lock K_rmtree = False" "holds_lock K_exit = False"
  by (simp_all add: holds_lock_def)

lemma main_step_lock:
  "stack s = Main pc # fs \<Longrightarrow> lock_ok s \<Longrightarrow> lock_ok (main_step env pc s)"
  unfolding main_step_def Let_def
  by (cases pc)
     (auto intro!: raise_lock lock_ok_goto lock_ok_push
           split: option.splits sum.splits prod.splits)

lemma cleanup_step_lock:
  assumes "stack s = Cleanup pc # fs" and "lock_ok s"
  shows "lock_ok (cleanup_step env pc s)"
proof (cases pc)
  case K_acquire
  with assms show ?thesis
    by (auto simp: cleanup_step_def intro!: lock_ok_acquire)
next
  case (K_release r)
  with assms show ?thesis
    by (auto simp: cleanup_step_def Let_def intro!: lock_ok_release split: option.splits)
qed (use assms in \<open>auto simp: cleanup_step_def Let_def intro!: raise_lock lock_ok_goto
           split: option.splits input_outcome.splits\<close>)

lemma watcher_step_lock: "lock_ok s \<Longrightarrow> lock_ok (watcher_step g s)"
  unfolding watcher_step_def Let_def
  by (auto simp: lock_ok_def lock_inv_def watcher_holding_def effect_def
           split: option.splits wpc.splits if_splits)

lemma watcher_event_lock: "lock_ok s \<Longrightarrow> lock_ok (watcher_event p s)"
  unfolding watcher_event_def
  by (auto simp: lock_ok_def lock_inv_def watcher_holding_def split: option.splits if_splits)

lemma step_lock: "lock_ok s \<Longrightarrow> lock_ok (step s a)"
  unfolding step_def
  by (cases a)
     (auto simp: main_step_lock cleanup_step_lock watcher_step_lock watcher_event_lock
           intro!: lock_ok_push
           split: list.splits frame.splits,
      simp add: lock_ok_def)

lemma run_lock: "lock_ok s \<Longrightarrow> lock_ok (run as s)"
  unfolding run_def by (induction as arbitrary: s) (simp_all add: step_lock)

lemma boot_lock: "lock_ok (boot a ds fs)"
  by (simp add: lock_ok_def lock_inv_def boot_def initial_def watcher_holding_def)

lemma in_backend_le_holders: "in_backend s \<le> holders s"
proof -
  have "length (filter (\<lambda>f. f = Cleanup K_running) fs) \<le> length (filter holding fs)" for fs
    by (induction fs) (auto simp: le_SucI)
  then show ?thesis
    by (auto simp: in_backend_def holders_def watcher_holding_def intro: le_SucI)
qed

lemmas step_defs = run_def step_def main_step_def cleanup_step_def watcher_step_def
  watcher_event_def watcher_alive_def goto_def effect_def raise_def leave_def
  boot_def

text \<open>
  Claim C2. In every state a session reaches, whatever the order of the main thread's
  steps, the signals and the watcher's events and steps, at most one invocation of the
  encryption backend is in progress; an invocation in progress belongs to a call of
  \<open>encrypt_back\<close> that is inside the \<open>with\<close> block of line 75; and the lock is taken
  exactly when one call is inside that block. So a call holds the lock for the whole
  invocation, and a call that has left the block (by returning, by raising, or because an
  exception has passed through it) has released the lock.
\<close>

theorem one_backend_at_a_time:
  "in_backend (run as (boot a ds fs)) \<le> 1
   \<and> in_backend (run as (boot a ds fs)) \<le> holders (run as (boot a ds fs))
   \<and> holders (run as (boot a ds fs)) = (if locked (globals (run as (boot a ds fs))) then 1 else 0)"
  using run_lock [OF boot_lock, of as a ds fs] in_backend_le_holders [of "run as (boot a ds fs)"]
  by (auto simp: lock_ok_def lock_inv_def holders_def split: if_splits)

lemma concurrent_requests_state:
  "stack (run concurrent_requests (boot example_args [''/home/u''] [''/home/u/notes.gpg'']))
     = [Cleanup K_acquire, Main M_cleanup]
   \<and> wpc (run concurrent_requests (boot example_args [''/home/u''] [''/home/u/notes.gpg'']))
     = W_running
   \<and> locked (globals (run concurrent_requests
       (boot example_args [''/home/u''] [''/home/u/notes.gpg''])))"
  by (simp add: concurrent_requests_def step_defs main_defs cleanup_defs eval_nat_numeral)

theorem one_backend_at_a_time_witness:
  "stack (run concurrent_requests (boot example_args [''/home/u''] [''/home/u/notes.gpg'']))
     = [Cleanup K_acquire, Main M_cleanup]
   \<and> wpc (run concurrent_requests (boot example_args [''/home/u''] [''/home/u/notes.gpg'']))
     = W_running
   \<and> in_backend (run concurrent_requests (boot example_args [''/home/u''] [''/home/u/notes.gpg'']))
     = 1
   \<and> holders (run concurrent_requests (boot example_args [''/home/u''] [''/home/u/notes.gpg'']))
     = 1"
  using one_backend_at_a_time
     [of concurrent_requests example_args "[''/home/u'']" "[''/home/u/notes.gpg'']"]
    concurrent_requests_state
  by (simp add: in_backend_def holders_def watcher_holding_def)



section \<open>The calls of \<open>sys.exit\<close>\<close>

lemma exit_calls_append [simp]: "exit_calls (l @ m) = exit_calls l @ exit_calls m"
  by (induction l rule: exit_calls.induct) simp_all

lemma catch_world:
  "catch e f w = Some (f', w') \<Longrightarrow> w' = w \<or> w' = w\<lparr>locked := False\<rparr>"
  by (induction e f w rule: catch.induct) auto

lemma leave_world: "leave f w = w \<or> leave f w = w\<lparr>locked := False\<rparr>"
  by (simp add: leave_def split: frame.splits)

lemma unwind_world:
  "unwind e fs w = (fs', w', st) \<Longrightarrow> w' = w \<or> w' = w\<lparr>locked := False\<rparr>"
proof (induction e fs w rule: unwind.induct)
  case (1 e w)
  then show ?case by simp
next
  case (2 e f fs w)
  show ?case
  proof (cases "if is_Exception e then catch e f w else None")
    case None
    with 2 have "w' = leave f w \<or> w' = (leave f w)\<lparr>locked := False\<rparr>"
      by simp
    with leave_world [of f w] show ?thesis by auto
  next
    case (Some a)
    then obtain f1 w1 where c: "catch e f w = Some (f1, w1)"
      by (cases a) (simp split: if_splits)
    with "2.prems" Some have "w' = w1" by (simp split: if_splits)
    with catch_world [OF c] show ?thesis by simp
  qed
qed

lemma unwind_status:
  "unwind e fs w = (fs', w', st) \<Longrightarrow>
     (is_Exception e \<longrightarrow> st = Running \<or> (st = Crashed e \<and> fs' = []))
     \<and> (\<forall>c. e = SystemExit c \<longrightarrow> st = Exited c \<and> fs' = [])"
  by (induction e fs w arbitrary: fs' w' st rule: unwind.induct)
     (auto simp: is_Exception_def split: exn.splits option.splits if_splits)

lemma raise_world:
  "globals (raise e s) = globals s \<or> globals (raise e s) = (globals s)\<lparr>locked := False\<rparr>"
  using unwind_world [of e "stack s" "globals s"]
  by (auto simp: raise_def split: prod.splits)

lemma raise_log [simp]: "log (globals (raise e s)) = log (globals s)"
  using raise_world [of e s] by auto

lemma raise_exit:
  "status (raise (SystemExit c) s) = Exited c \<and> stack (raise (SystemExit c) s) = []"
  using unwind_status [of "SystemExit c" "stack s" "globals s"]
  by (auto simp: raise_def split: prod.splits)

lemma raise_exn:
  "is_Exception e \<Longrightarrow> status (raise e s) = Running \<or> status (raise e s) = Crashed e"
  using unwind_status [of e "stack s" "globals s"]
  by (auto simp: raise_def split: prod.splits)



lemma exit_ok_raise_exit:
  "status s = Running \<Longrightarrow> exit_ok s \<Longrightarrow>
     exit_ok (raise (SystemExit c) (effect (emit (Exit c)) s))"
  using raise_exit [of c "effect (emit (Exit c)) s"]
  by (simp add: exit_ok_def)

lemma exit_ok_raise:
  "is_Exception e \<Longrightarrow> status s = Running \<Longrightarrow> exit_ok s \<Longrightarrow> exit_ok (raise e s)"
  using raise_exn [of e s] by (auto simp: exit_ok_def)

lemma exit_ok_keep:
  "exit_ok s \<Longrightarrow> status s' = status s \<Longrightarrow>
     exit_calls (log (globals s')) = exit_calls (log (globals s)) \<Longrightarrow> exit_ok s'"
  by (simp add: exit_ok_def)


lemma raise_exit_status [simp]: "status (raise (SystemExit c) s) = Exited c"
  using raise_exit by simp

lemma raise_exn_case [simp]:
  "is_Exception e \<Longrightarrow> (case status (raise e s) of Exited c \<Rightarrow> [c] | _ \<Rightarrow> []) = []"
  using raise_exn [of e s] by auto

lemma is_Exception_simps [simp]:
  "is_Exception (RuntimeError m)" "is_Exception IndexError" "is_Exception (OSError m)"
  "is_Exception EOFError" "is_Exception (AttributeError m)" "\<not> is_Exception (SystemExit c)"
  by (simp_all add: is_Exception_def)

lemma report_failure_log [simp]:
  "log (report_failure e w) =
     log w @ [Print_stderr (''[ERROR]: Cleanup encryption failed: '' @ str_exn e),
              Print_stdout [], Print_stderr (notice (PLAINTEXT_FILE w))]"
  by (simp add: report_failure_def)












section \<open>The order of the final encryption, the watcher's end and the removal\<close>

lemma seen_snoc: "seen ps l \<Longrightarrow> seen ps (l @ m)"
  by (induction ps l rule: seen.induct) (auto split: if_splits)

lemma seen_one: "p e \<Longrightarrow> seen [p] (l @ [e])"
  by (induction l) auto

lemma seen_ext: "seen ps l \<Longrightarrow> p e \<Longrightarrow> seen (ps @ [p]) (l @ [e])"
  by (induction ps l rule: seen.induct) (auto simp: seen_one split: if_splits)

lemma seen_take: "seen (ps @ qs) l \<Longrightarrow> seen ps l"
  by (induction ps l rule: seen.induct) (auto split: if_splits)

lemma seen_ConsD:
  "seen (p # ps) l \<Longrightarrow> \<exists>l1 e l2. l = l1 @ e # l2 \<and> p e \<and> seen ps l2"
proof (induction l)
  case Nil
  then show ?case by simp
next
  case (Cons a l)
  show ?case
  proof (cases "p a")
    case True
    with Cons.prems have "seen ps l" by simp
    with True show ?thesis by (intro exI [of _ "[]"] exI [of _ a] exI [of _ l]) simp
  next
    case False
    with Cons.prems have "seen (p # ps) l" by simp
    from Cons.IH [OF this] obtain l1 e l2 where "l = l1 @ e # l2" "p e" "seen ps l2"
      by blast
    then show ?thesis by (intro exI [of _ "a # l1"] exI [of _ e] exI [of _ l2]) simp
  qed
qed

lemma seen2_1: "seen [a, b] l \<Longrightarrow> seen [a] l"
  using seen_take [of "[a]" "[b]" l] by simp

lemma seen3_2: "seen [a, b, c] l \<Longrightarrow> seen [a, b] l"
  using seen_take [of "[a, b]" "[c]" l] by simp

lemma seen3_1: "seen [a, b, c] l \<Longrightarrow> seen [a] l"
  using seen_take [of "[a]" "[b, c]" l] by simp

lemma finished_enc: "finished wt l \<Longrightarrow> seen [main_enc] l"
  by (auto simp: finished_def dest: seen3_1 split: if_splits)

lemma removals_append [simp]: "removals (l @ m) = removals l @ removals m"
  by (induction l rule: removals.induct) simp_all

lemma removals_empty: "removals l = [] \<longleftrightarrow> (\<forall>d. Rmtree d \<notin> set l)"
  by (induction l rule: removals.induct) auto

lemma quiet_snoc:
  "quiet_after_join l \<Longrightarrow> \<not> watcher_enc e \<or> Watcher_join \<notin> set l \<Longrightarrow>
     quiet_after_join (l @ [e])"
proof -
  assume q: "quiet_after_join l" and e: "\<not> watcher_enc e \<or> Watcher_join \<notin> set l"
  show ?thesis
    unfolding quiet_after_join_def
  proof (intro allI impI)
    fix l1 l2
    assume d: "l @ [e] = l1 @ Watcher_join # l2"
    show "\<forall>x\<in>set l2. \<not> watcher_enc x"
    proof (cases l2 rule: rev_cases)
      case Nil
      then show ?thesis by simp
    next
      case (snoc l3 x)
      with d have l: "l = l1 @ Watcher_join # l3" and x: "x = e"
        by simp_all
      from q l have "\<forall>y\<in>set l3. \<not> watcher_enc y"
        unfolding quiet_after_join_def by blast
      moreover from l e x have "\<not> watcher_enc x" by auto
      ultimately show ?thesis using snoc by simp
    qed
  qed
qed

lemma quiet_Nil [simp]: "quiet_after_join []"
  by (simp add: quiet_after_join_def)


lemma quiet_append:
  "quiet_after_join l \<Longrightarrow> \<forall>e\<in>set m. \<not> watcher_enc e \<Longrightarrow> quiet_after_join (l @ m)"
proof (induction m rule: rev_induct)
  case Nil
  then show ?case by simp
next
  case (snoc x m)
  then have "quiet_after_join ((l @ m) @ [x])"
    by (intro quiet_snoc) auto
  then show ?case by simp
qed

lemma quiet_no_join:
  "quiet_after_join l \<Longrightarrow> Watcher_join \<notin> set l \<Longrightarrow> quiet_after_join (l @ [e])"
  by (rule quiet_snoc) auto

lemma watcher_enc_simps [simp]:
  "watcher_enc (Gpg_encrypt th t p k) = (th = Watcher_thread)"
  "\<not> watcher_enc (Print_stderr x)" "\<not> watcher_enc (Print_stdout x)" "\<not> watcher_enc (Popen x)"
  "\<not> watcher_enc Terminate" "\<not> watcher_enc (Acknowledged x)" "\<not> watcher_enc Watcher_stop"
  "\<not> watcher_enc Watcher_join" "\<not> watcher_enc (Rmtree x)" "\<not> watcher_enc (Exit c)"
  by (simp_all add: watcher_enc_def)

lemma main_enc_simps [simp]:
  "main_enc (Gpg_encrypt th t p k) = (th = Main_thread)"
  by (simp add: main_enc_def)

lemma finished_mono: "finished wt l \<Longrightarrow> finished wt (l @ m)"
  by (auto simp: finished_def intro: seen_snoc)

lemma frame_ok_mono: "frame_ok wt l f \<Longrightarrow> frame_ok wt (l @ m) f"
  by (auto simp: frame_ok_def intro: seen_snoc finished_mono split: frame.splits cpc.splits)

lemma frames_mono:
  "\<forall>f\<in>set fs. frame_ok wt l f \<Longrightarrow> \<forall>f\<in>set fs. frame_ok wt (l @ m) f"
  by (auto intro: frame_ok_mono)

lemma removal_ordered_mono:
  "removal_ordered wt l \<Longrightarrow> \<forall>d. Rmtree d \<notin> set m \<Longrightarrow> removal_ordered wt (l @ m)"
  by (auto simp: removal_ordered_def intro: seen_snoc)

lemma removal_ordered_rm:
  "removal_ordered wt l \<Longrightarrow> finished wt l \<Longrightarrow> removal_ordered wt (l @ [Rmtree d])"
proof -
  assume r: "removal_ordered wt l" and f: "finished wt l"
  have new: "if wt then seen [main_enc, (=) (Rmtree d)] (l @ [Rmtree d])
         else seen [main_enc, (=) Watcher_stop, (=) Watcher_join, (=) (Rmtree d)]
                (l @ [Rmtree d])"
    using f seen_ext [of "[main_enc]" l "(=) (Rmtree d)" "Rmtree d"]
      seen_ext [of "[main_enc, (=) Watcher_stop, (=) Watcher_join]" l "(=) (Rmtree d)" "Rmtree d"]
    by (auto simp: finished_def)
  show ?thesis
    unfolding removal_ordered_def
  proof (intro allI impI)
    fix d'
    assume "Rmtree d' \<in> set (l @ [Rmtree d])"
    then consider "d' = d" | "Rmtree d' \<in> set l" by auto
    then show "if wt then seen [main_enc, (=) (Rmtree d')] (l @ [Rmtree d])
         else seen [main_enc, (=) Watcher_stop, (=) Watcher_join, (=) (Rmtree d')]
                (l @ [Rmtree d])"
    proof cases
      case 1
      with new show ?thesis by simp
    next
      case 2
      with r show ?thesis
        by (auto simp: removal_ordered_def intro: seen_snoc)
    qed
  qed
qed

lemma removed_once_rm:
  "removed_once l (Some d) ds \<Longrightarrow> d \<in> set ds \<Longrightarrow>
     removed_once (l @ [Rmtree d]) (Some d) (filter (\<lambda>p. \<not> under d p) ds)"
  by (auto simp: removed_once_def under_self)


lemma raise_fields2 [simp]:
  "WATCHER (globals (raise e s)) = WATCHER (globals s)"
  "TEMP_DIR (globals (raise e s)) = TEMP_DIR (globals s)"
  "dirs (globals (raise e s)) = dirs (globals s)"
  "PROCESS (globals (raise e s)) = PROCESS (globals s)"
  using raise_world [of e s] by auto

lemma catch_kind:
  "catch e f w = Some (f', w') \<Longrightarrow>
     (\<exists>c c'. f = Cleanup c \<and> f' = Cleanup c')
     \<or> (f' = Main (M_caught e) \<and> (f = Main M_popen \<or> f = Main M_wait))"
  by (induction e f w rule: catch.induct) auto

lemma catch_frame_ok:
  "catch e f w = Some (f', w') \<Longrightarrow> seen [main_enc] l \<Longrightarrow> frame_ok wt l f'"
  by (induction e f w rule: catch.induct) (auto simp: frame_ok_def)

lemma unwind_cases:
  "unwind e fs w = (fs', w', st) \<Longrightarrow>
     (fs' = [] \<and> st \<noteq> Running)
     \<or> (\<exists>pre f rest f' w0 w1. fs = pre @ f # rest \<and> fs' = f' # rest \<and> st = Running
          \<and> is_Exception e \<and> catch e f w0 = Some (f', w1))"
proof (induction e fs w arbitrary: fs' w' st rule: unwind.induct)
  case (1 e w)
  then show ?case by (auto split: exn.splits)
next
  case (2 e f fs w)
  show ?case
  proof (cases "if is_Exception e then catch e f w else None")
    case None
    with "2.prems" have u: "unwind e fs (leave f w) = (fs', w', st)" by simp
    from "2.IH" [OF None u] show ?thesis
    proof
      assume "fs' = [] \<and> st \<noteq> Running"
      then show ?thesis by simp
    next
      assume "\<exists>pre f rest f' w0 w1. fs = pre @ f # rest \<and> fs' = f' # rest \<and> st = Running
          \<and> is_Exception e \<and> catch e f w0 = Some (f', w1)"
      then obtain pre g rest g' w0 w1 where
        "fs = pre @ g # rest" "fs' = g' # rest" "st = Running" "is_Exception e"
        "catch e g w0 = Some (g', w1)" by blast
      then have "f # fs = (f # pre) @ g # rest \<and> fs' = g' # rest \<and> st = Running
          \<and> is_Exception e \<and> catch e g w0 = Some (g', w1)" by simp
      then show ?thesis by blast
    qed
  next
    case (Some a)
    then obtain f1 w1 where c: "catch e f w = Some (f1, w1)" and ex: "is_Exception e"
      by (cases a) (simp split: if_splits)
    with "2.prems" have "fs' = f1 # fs" "st = Running" by simp_all
    with c ex have "f # fs = [] @ f # fs \<and> fs' = f1 # fs \<and> st = Running
          \<and> is_Exception e \<and> catch e f w = Some (f1, w1)" by simp
    then show ?thesis by blast
  qed
qed

lemma shaped_suffix: "shaped (pre @ fs) \<Longrightarrow> shaped fs"
  by (induction pre rule: shaped.induct) auto

lemma shaped_top:
  "shaped (Cleanup c # rest) \<Longrightarrow> shaped (Cleanup c' # rest)"
  by simp

lemma unwind_order:
  assumes u: "unwind e fs w = (fs', w', st)"
    and inv: "order_inv fs w0 wp Running"
    and enc: "is_Exception e \<longrightarrow> seen [main_enc] (log w0)"
  shows "order_inv fs' w0 wp st"
proof -
  from inv have sh: "shaped fs"
    and mains: "WATCHER w0 = None \<longrightarrow> (\<forall>pc. Main pc \<in> set fs \<longrightarrow> early pc)"
    and frames: "\<forall>f\<in>set fs. frame_ok (WATCHER w0 = None) (log w0) f"
    and rest: "removal_ordered (WATCHER w0 = None) (log w0)"
      "removed_once (log w0) (TEMP_DIR w0) (dirs w0)"
      "Watcher_join \<in> set (log w0) \<longrightarrow> WATCHER w0 = Some Joined"
      "WATCHER w0 = Some Joined \<longrightarrow> wp = W_idle"
      "quiet_after_join (log w0)"
    by (simp_all add: order_inv_def)
  from unwind_cases [OF u] show ?thesis
  proof
    assume "fs' = [] \<and> st \<noteq> Running"
    with rest show ?thesis by (simp add: order_inv_def)
  next
    assume "\<exists>pre f rest f' w0 w1. fs = pre @ f # rest \<and> fs' = f' # rest \<and> st = Running
          \<and> is_Exception e \<and> catch e f w0 = Some (f', w1)"
    then obtain pre f tl f' wa wb where
      fs: "fs = pre @ f # tl" and fs': "fs' = f' # tl" and st: "st = Running"
      and ex: "is_Exception e" and c: "catch e f wa = Some (f', wb)" by blast
    from sh fs have sh1: "shaped (f # tl)" using shaped_suffix by blast
    from catch_kind [OF c] have sh2: "shaped (f' # tl)"
    proof
      assume "\<exists>c c'. f = Cleanup c \<and> f' = Cleanup c'"
      with sh1 show ?thesis by auto
    next
      assume "f' = Main (M_caught e) \<and> (f = Main M_popen \<or> f = Main M_wait)"
      with sh1 show ?thesis by auto
    qed
    have m2: "WATCHER w0 = None \<longrightarrow> (\<forall>pc. Main pc \<in> set (f' # tl) \<longrightarrow> early pc)"
      using catch_kind [OF c] mains fs by (auto simp: early_def)
    have fresh: "\<forall>pc. f' # tl = [Main pc] \<longrightarrow> \<not> early pc"
      using catch_kind [OF c] by (auto simp: early_def)
    from enc ex have "seen [main_enc] (log w0)" by simp
    from catch_frame_ok [OF c this] have "frame_ok (WATCHER w0 = None) (log w0) f'" .
    with frames fs have f2: "\<forall>g\<in>set (f' # tl). frame_ok (WATCHER w0 = None) (log w0) g"
      by simp
    from sh2 m2 fresh f2 rest show ?thesis
      unfolding fs' st order_inv_def by blast
  qed
qed

lemma order_inv_world:
  "order_inv fs w wp st \<Longrightarrow> log w' = log w \<Longrightarrow> WATCHER w' = WATCHER w \<Longrightarrow>
     TEMP_DIR w' = TEMP_DIR w \<Longrightarrow> dirs w' = dirs w \<Longrightarrow> order_inv fs w' wp st"
  by (simp add: order_inv_def)

lemma raise_order:
  assumes "order_ok s" and "status s = Running"
    and "is_Exception e \<longrightarrow> seen [main_enc] (log (globals s))"
  shows "order_ok (raise e s)"
proof -
  obtain fs' w' st where u: "unwind e (stack s) (globals s) = (fs', w', st)"
    by (cases "unwind e (stack s) (globals s)") auto
  from assms have "order_inv (stack s) (globals s) (wpc s) Running"
    by (simp add: order_ok_def)
  from unwind_order [OF u this assms(3)] have "order_inv fs' (globals s) (wpc s) st" .
  moreover from unwind_world [OF u] have "log w' = log (globals s)"
    "WATCHER w' = WATCHER (globals s)" "TEMP_DIR w' = TEMP_DIR (globals s)"
    "dirs w' = dirs (globals s)" by auto
  ultimately have "order_inv fs' w' (wpc s) st"
    by (rule order_inv_world)
  with u show ?thesis
    by (simp add: order_ok_def raise_def)
qed


lemma early_simps [simp]:
  "early M_parse" "early M_exists" "early M_decrypt" "early M_signal_int"
  "early M_signal_term" "early M_observer" "early M_start"
  "\<not> early M_popen" "\<not> early M_wait" "\<not> early (M_caught e)" "\<not> early M_cleanup"
  by (simp_all add: early_def)

lemma frame_ok_simps [simp]:
  "frame_ok wt l (Main pc)"
  "frame_ok wt l (Cleanup K_poll)" "frame_ok wt l (Cleanup K_terminate)"
  "frame_ok wt l (Cleanup K_acquire)" "frame_ok wt l (Cleanup K_run)"
  "frame_ok wt l (Cleanup K_running) = seen [main_enc] l"
  "frame_ok wt l (Cleanup (K_release r)) = seen [main_enc] l"
  "frame_ok wt l (Cleanup (K_report e)) = seen [main_enc] l"
  "frame_ok wt l (Cleanup K_input) = seen [main_enc] l"
  "frame_ok wt l (Cleanup K_stop) = seen [main_enc] l"
  "frame_ok wt l (Cleanup K_join) = (\<not> wt \<and> seen [main_enc, (=) Watcher_stop] l)"
  "frame_ok wt l (Cleanup K_rmtree) = finished wt l"
  "frame_ok wt l (Cleanup K_exit) = finished wt l"
  by (simp_all add: frame_ok_def)

lemma trivial_logs [simp]:
  "removal_ordered wt []" "removed_once [] td ds"
  by (simp_all add: removal_ordered_def removed_once_def)

lemma raise_order_main:
  assumes "order_ok s" and "status s = Running" and "stack s = [Main pc]"
  shows "order_ok (raise e s)"
  using assms
  by (cases pc; cases "is_Exception e")
     (auto simp: raise_def order_ok_def order_inv_def leave_def split: exn.splits)

lemma quiet_plain: "\<forall>e\<in>set m. \<not> watcher_enc e \<Longrightarrow> quiet_after_join m"
  using quiet_append [of "[]" m] by simp

lemma removal_ordered_plain: "\<forall>d. Rmtree d \<notin> set m \<Longrightarrow> removal_ordered wt m"
  by (simp add: removal_ordered_def)

lemma main_step_order:
  assumes "order_ok s" and "status s = Running" and "stack s = [Main pc]"
  shows "order_ok (main_step env pc s)"
proof (cases pc)
  case M_parse
  with assms show ?thesis
    by (auto simp: main_step_def Let_def order_ok_def order_inv_def raise_def leave_def
             removed_once_def is_Exception_def
           intro!: quiet_plain removal_ordered_plain)
next
  case M_exists
  with assms show ?thesis
    by (auto simp: main_step_def Let_def order_ok_def order_inv_def raise_def leave_def
             removed_once_def is_Exception_def
           intro!: quiet_plain removal_ordered_plain)
qed (use assms in \<open>auto simp: main_step_def Let_def order_ok_def order_inv_def raise_def
             leave_def removed_once_def is_Exception_def
           intro!: removal_ordered_mono quiet_append
           split: sum.splits prod.splits option.splits exn.splits\<close>)


lemma removals_plain: "\<forall>d. Rmtree d \<noteq> e \<Longrightarrow> removals [e] = []"
  by (cases e) simp_all

lemmas snoc_rules = frame_ok_mono removal_ordered_mono quiet_append finished_mono seen_snoc

lemma order_ok_emit:
  assumes "order_ok s" and "stack s = Cleanup c # fs"
    and "\<not> watcher_enc e" and "\<forall>d. Rmtree d \<noteq> e" and "e \<noteq> Watcher_join"
  shows "order_ok (effect (emit e) s)"
  using assms
  by (auto simp: order_ok_def order_inv_def removed_once_def removals_plain snoc_rules)

lemma finished_join:
  "seen [main_enc, (=) Watcher_stop] l \<Longrightarrow> finished False (l @ [Watcher_join])"
  using seen_ext [of "[main_enc, (=) Watcher_stop]" l "(=) Watcher_join" Watcher_join]
  by (simp add: finished_def)

lemma seen_stop:
  "seen [main_enc] l \<Longrightarrow> seen [main_enc, (=) Watcher_stop] (l @ [Watcher_stop])"
  using seen_ext [of "[main_enc]" l "(=) Watcher_stop" Watcher_stop] by simp

lemma cleanup_step_order:
  assumes inv: "order_ok s" and run: "status s = Running" and st: "stack s = Cleanup pc # fs"
  shows "order_ok (cleanup_step env pc s)"
proof (cases pc)
  case K_poll
  with assms show ?thesis
    by (auto simp: cleanup_step_def Let_def order_ok_def order_inv_def removed_once_def
               snoc_rules
             split: option.splits)
next
  case K_terminate
  with assms show ?thesis
    by (auto simp: cleanup_step_def Let_def order_ok_def order_inv_def removed_once_def
               raise_def
               snoc_rules)
next
  case K_acquire
  with assms show ?thesis
    by (auto simp: cleanup_step_def Let_def order_ok_def order_inv_def)
next
  case K_run
  with assms show ?thesis
    by (auto simp: cleanup_step_def Let_def order_ok_def order_inv_def removed_once_def
               snoc_rules seen_one)
next
  case K_running
  with assms show ?thesis
    by (auto simp: cleanup_step_def Let_def order_ok_def order_inv_def)
next
  case (K_release r)
  with assms show ?thesis
    by (auto simp: cleanup_step_def Let_def order_ok_def order_inv_def split: option.splits)
next
  case (K_report e)
  with assms show ?thesis
    by (auto simp: cleanup_step_def Let_def order_ok_def order_inv_def removed_once_def
               snoc_rules)
next
  case K_input
  show ?thesis
  proof (cases "stdin_gives env")
    case (Line l)
    with K_input assms show ?thesis
      by (auto simp: cleanup_step_def Let_def order_ok_def order_inv_def removed_once_def
               snoc_rules)
  next
    case EOF
    from inv st K_input have "seen [main_enc] (log (globals s))"
      by (simp add: order_ok_def order_inv_def)
    with inv run have "order_ok (raise EOFError s)"
      by (intro raise_order) simp_all
    with K_input EOF show ?thesis
      by (simp add: cleanup_step_def Let_def)
  next
    case Never
    with K_input inv show ?thesis
      by (simp add: cleanup_step_def Let_def)
  qed
next
  case K_stop
  with assms show ?thesis
    by (auto simp: cleanup_step_def Let_def order_ok_def order_inv_def removed_once_def
               finished_def
               snoc_rules seen_stop
             split: option.splits)
next
  case K_join
  show ?thesis
  proof (cases "WATCHER (globals s) = Some Created")
    case True
    from inv st K_join have "seen [main_enc] (log (globals s))"
      by (auto simp: order_ok_def order_inv_def dest: seen2_1)
    with inv run
    have "order_ok (raise (RuntimeError ''cannot join thread before it is started'') s)"
      by (intro raise_order) simp_all
    with K_join True show ?thesis
      by (simp add: cleanup_step_def Let_def)
  next
    case False
    with K_join assms show ?thesis
      by (auto simp: cleanup_step_def Let_def order_ok_def order_inv_def removed_once_def
               snoc_rules finished_join
             split: option.splits)
  qed
next
  case K_rmtree
  with assms show ?thesis
    by (auto simp: cleanup_step_def Let_def order_ok_def order_inv_def
               removal_ordered_rm removed_once_rm snoc_rules
             split: option.splits)
next
  case K_exit
  have "order_ok (effect (emit (Exit (exit_code (globals s)))) s)"
    using inv st by (intro order_ok_emit) simp_all
  then have "order_ok (raise (SystemExit (exit_code (globals s)))
       (effect (emit (Exit (exit_code (globals s)))) s))"
    using run by (intro raise_order) simp_all
  with K_exit show ?thesis
    by (simp add: cleanup_step_def Let_def)
qed


lemma watcher_step_order:
  assumes "order_ok s" and "status s = Running"
  shows "order_ok (watcher_step g s)"
  using assms
  by (cases "wpc s")
     (auto simp: watcher_step_def Let_def order_ok_def order_inv_def removed_once_def
             effect_def emit_def snoc_rules quiet_no_join
           split: option.splits)

lemma watcher_event_order:
  assumes "order_ok s" and "status s = Running"
  shows "order_ok (watcher_event p s)"
  using assms
  by (auto simp: watcher_event_def watcher_alive_def order_ok_def order_inv_def
           split: option.splits)

lemma shaped_Main: "shaped (Main pc # fs) \<Longrightarrow> fs = []"
  by simp

lemma step_order: "order_ok s \<Longrightarrow> order_ok (step s a)"
proof (cases "status s = Running")
  case False
  then show "order_ok s \<Longrightarrow> order_ok (step s a)"
    by (simp add: step_def)
next
  case True
  assume inv: "order_ok s"
  show "order_ok (step s a)"
  proof (cases a)
    case (Main_step env)
    show ?thesis
    proof (cases "stack s")
      case Nil
      with Main_step True inv show ?thesis by (simp add: step_def)
    next
      case (Cons f fs)
      show ?thesis
      proof (cases f)
        case (Main pc)
        from inv Cons Main have "fs = []"
          by (simp add: order_ok_def order_inv_def)
        with Cons Main have "stack s = [Main pc]" by simp
        from main_step_order [OF inv True this] Main_step True Cons Main show ?thesis
          by (simp add: step_def)
      next
        case (Cleanup pc)
        with Cons have "stack s = Cleanup pc # fs" by simp
        from cleanup_step_order [OF inv True this] Main_step True Cons Cleanup show ?thesis
          by (simp add: step_def)
      qed
    qed
  next
    case (Signal sg)
    with True inv show ?thesis
      by (auto simp: step_def order_ok_def order_inv_def)
  next
    case (Modified p)
    with True watcher_event_order [OF inv True] show ?thesis
      by (simp add: step_def)
  next
    case (Watcher_step g)
    with True watcher_step_order [OF inv True] show ?thesis
      by (simp add: step_def)
  qed
qed

lemma run_order: "order_ok s \<Longrightarrow> order_ok (run as s)"
  unfolding run_def by (induction as arbitrary: s) (simp_all add: step_order)

lemma boot_order: "order_ok (boot a ds fs)"
  by (simp add: order_ok_def order_inv_def boot_def initial_def)

lemma main_encD: "main_enc e \<Longrightarrow> \<exists>t p k. e = Gpg_encrypt Main_thread t p k"
  by (cases e) (auto simp: main_enc_def)

lemma watcher_encD: "watcher_enc (Gpg_encrypt Watcher_thread t p k)"
  by simp

lemma seen2D:
  assumes "seen [p, q] l"
  shows "\<exists>l1 a l2 b l3. l = l1 @ a # l2 @ b # l3 \<and> p a \<and> q b"
proof -
  from seen_ConsD [OF assms] obtain l1 a m where
    1: "l = l1 @ a # m" "p a" "seen [q] m" by blast
  from seen_ConsD [OF 1(3)] obtain l2 b l3 where
    2: "m = l2 @ b # l3" "q b" by blast
  from 1 2 show ?thesis by blast
qed

lemma seen4D:
  assumes "seen [p, q, r, u] l"
  shows "\<exists>l1 a l2 b l3 c l4 d l5.
           l = l1 @ a # l2 @ b # l3 @ c # l4 @ d # l5 \<and> p a \<and> q b \<and> r c \<and> u d"
proof -
  from seen_ConsD [OF assms] obtain l1 a m where
    1: "l = l1 @ a # m" "p a" "seen [q, r, u] m" by blast
  from seen_ConsD [OF 1(3)] obtain l2 b m2 where
    2: "m = l2 @ b # m2" "q b" "seen [r, u] m2" by blast
  from seen2D [OF 2(3)] obtain l3 c l4 d l5 where
    3: "m2 = l3 @ c # l4 @ d # l5" "r c" "u d" by blast
  from 1 2 3 show ?thesis by blast
qed

lemma removal_after_encrypt:
  assumes "removal_ordered nw l" and "Rmtree d \<in> set l"
  shows "\<exists>t p k l1 l2 l3. l = l1 @ Gpg_encrypt Main_thread t p k # l2 @ Rmtree d # l3"
proof (cases nw)
  case True
  with assms have "seen [main_enc, (=) (Rmtree d)] l"
    by (simp add: removal_ordered_def)
  from seen2D [OF this] obtain l1 a l2 b l3 where
    "l = l1 @ a # l2 @ b # l3" "main_enc a" "Rmtree d = b" by blast
  with main_encD [of a] show ?thesis by blast
next
  case False
  with assms have "seen [main_enc, (=) Watcher_stop, (=) Watcher_join, (=) (Rmtree d)] l"
    by (simp add: removal_ordered_def)
  from seen4D [OF this] obtain l1 a l2 b l3 c l4 e l5 where
    l: "l = l1 @ a # l2 @ b # l3 @ c # l4 @ e # l5" and "main_enc a" "Rmtree d = e" by blast
  with main_encD [of a] obtain t p k where
    "l = l1 @ Gpg_encrypt Main_thread t p k # (l2 @ b # l3 @ c # l4) @ Rmtree d # l5"
    by auto
  then show ?thesis by blast
qed

lemma removal_after_join:
  assumes "removal_ordered False l" and "Rmtree d \<in> set l"
  shows "\<exists>t p k l1 l2 l3 l4 l5.
           l = l1 @ Gpg_encrypt Main_thread t p k # l2 @ Watcher_stop # l3
                 @ Watcher_join # l4 @ Rmtree d # l5"
proof -
  from assms have "seen [main_enc, (=) Watcher_stop, (=) Watcher_join, (=) (Rmtree d)] l"
    by (simp add: removal_ordered_def)
  from seen4D [OF this] obtain l1 a l2 b l3 c l4 e l5 where
    l: "l = l1 @ a # l2 @ b # l3 @ c # l4 @ e # l5" and
    "main_enc a" "Watcher_stop = b" "Watcher_join = c" "Rmtree d = e" by blast
  with main_encD [of a] show ?thesis by blast
qed

lemma quiet_session_log:
  "log (globals (run quiet_session (boot example_args [''/home/u''] [''/home/u/notes.gpg''])))
     = [Popen ''vi /dev/shm/gpg-editr/notes'',
        Gpg_encrypt Main_thread (Some ''/dev/shm/gpg-editr/notes'')
          (Some ''/home/u/notes.gpg'') (Some ''0123ABCD''),
        Watcher_stop, Watcher_join, Rmtree ''/dev/shm/gpg-editr'', Exit 0]
   \<and> status (run quiet_session (boot example_args [''/home/u''] [''/home/u/notes.gpg'']))
     = Exited 0"
  by (simp add: quiet_session_def step_defs main_defs cleanup_defs eval_nat_numeral
        is_Exception_def)

text \<open>
  Claim C7, the counterexample. The claim says that the final encryption is the last one
  the session starts. Nothing in the code keeps the watcher from starting one later: it is
  stopped only after the final encryption has returned, and until then a write to the
  plaintext makes \<open>on_modified\<close> call \<open>encrypt_back\<close> as usual. In this run of the example
  session the watcher sees the editor's last write when the main thread has finished the
  final encryption, and encrypts once more before it is stopped and joined.
\<close>

theorem late_auto_save_counterexample:
  "log (globals (run late_auto_save (boot example_args [''/home/u''] [''/home/u/notes.gpg''])))
     = [Popen ''vi /dev/shm/gpg-editr/notes'',
        Gpg_encrypt Main_thread (Some ''/dev/shm/gpg-editr/notes'')
          (Some ''/home/u/notes.gpg'') (Some ''0123ABCD''),
        Gpg_encrypt Watcher_thread (Some ''/dev/shm/gpg-editr/notes'')
          (Some ''/home/u/notes.gpg'') (Some ''0123ABCD''),
        Watcher_stop, Watcher_join, Rmtree ''/dev/shm/gpg-editr'', Exit 0]
   \<and> status (run late_auto_save (boot example_args [''/home/u''] [''/home/u/notes.gpg'']))
     = Exited 0"
  by (simp add: late_auto_save_def step_defs main_defs cleanup_defs eval_nat_numeral
        is_Exception_def)

text \<open>
  Claim C7, as amended. In every state a session reaches, whatever the schedule: if the
  workspace has been removed, then an encryption by \<open>cleanup_and_exit\<close> on the main thread
  was started before the removal, and if a watcher was ever created, that encryption, the
  watcher's stop, its join and the removal are in the log in this order; the workspace has
  been removed at most once; and the watcher starts no encryption after it has been
  joined.
\<close>

theorem removal_after_encrypt_stop_join:
  "(\<forall>d. Rmtree d \<in> set (log (globals (run as (boot a ds fs)))) \<longrightarrow>
      (\<exists>t p k l1 l2 l3.
         log (globals (run as (boot a ds fs)))
           = l1 @ Gpg_encrypt Main_thread t p k # l2 @ Rmtree d # l3)
      \<and> (WATCHER (globals (run as (boot a ds fs))) \<noteq> None \<longrightarrow>
           (\<exists>t p k l1 l2 l3 l4 l5.
              log (globals (run as (boot a ds fs)))
                = l1 @ Gpg_encrypt Main_thread t p k # l2 @ Watcher_stop # l3
                    @ Watcher_join # l4 @ Rmtree d # l5)))
   \<and> length (removals (log (globals (run as (boot a ds fs))))) \<le> 1
   \<and> (\<forall>l1 l2 t p k.
         log (globals (run as (boot a ds fs))) = l1 @ Watcher_join # l2 \<longrightarrow>
         Gpg_encrypt Watcher_thread t p k \<notin> set l2)"
proof -
  let ?s = "run as (boot a ds fs)"
  have inv: "order_inv (stack ?s) (globals ?s) (wpc ?s) (status ?s)"
    using run_order [OF boot_order, of as a ds fs] by (simp add: order_ok_def)
  then have ro: "removal_ordered (WATCHER (globals ?s) = None) (log (globals ?s))"
    and once: "removed_once (log (globals ?s)) (TEMP_DIR (globals ?s)) (dirs (globals ?s))"
    and quiet: "quiet_after_join (log (globals ?s))"
    by (simp_all add: order_inv_def)
  have 1: "\<forall>d. Rmtree d \<in> set (log (globals ?s)) \<longrightarrow>
      (\<exists>t p k l1 l2 l3.
         log (globals ?s) = l1 @ Gpg_encrypt Main_thread t p k # l2 @ Rmtree d # l3)
      \<and> (WATCHER (globals ?s) \<noteq> None \<longrightarrow>
           (\<exists>t p k l1 l2 l3 l4 l5.
              log (globals ?s)
                = l1 @ Gpg_encrypt Main_thread t p k # l2 @ Watcher_stop # l3
                    @ Watcher_join # l4 @ Rmtree d # l5))"
    using removal_after_encrypt [OF ro] removal_after_join [of "log (globals ?s)"] ro
    by auto
  have 2: "length (removals (log (globals ?s))) \<le> 1"
    using once by (auto simp: removed_once_def)
  have 3: "\<forall>l1 l2 t p k.
         log (globals ?s) = l1 @ Watcher_join # l2 \<longrightarrow>
         Gpg_encrypt Watcher_thread t p k \<notin> set l2"
    using quiet watcher_encD unfolding quiet_after_join_def by blast
  from 1 2 3 show ?thesis by blast
qed

theorem removal_after_encrypt_stop_join_witness:
  "Rmtree ''/dev/shm/gpg-editr''
     \<in> set (log (globals (run quiet_session
          (boot example_args [''/home/u''] [''/home/u/notes.gpg'']))))
   \<and> removals (log (globals (run quiet_session
          (boot example_args [''/home/u''] [''/home/u/notes.gpg'']))))
     = [''/dev/shm/gpg-editr'']
   \<and> (\<exists>t p k l1 l2 l3.
         log (globals (run quiet_session
            (boot example_args [''/home/u''] [''/home/u/notes.gpg''])))
           = l1 @ Gpg_encrypt Main_thread t p k # l2 @ Rmtree ''/dev/shm/gpg-editr'' # l3)"
  using removal_after_encrypt_stop_join
     [of quiet_session example_args "[''/home/u'']" "[''/home/u/notes.gpg'']"]
    quiet_session_log
  by simp

end
